theory Spec2Isabelle
  imports Main "HOL-Library.Word"
begin

section \<open>The post office simulation of proj2.c\<close>

text \<open>
  The program is a parent process (the orchestrator, \<^verbatim>\<open>main\<close>) that parses five
  arguments, maps one block of shared memory, forks the client and the worker processes
  and drives the closing of the office. The sequential parts (argument parsing, the
  construction and destruction of the shared block) are embedded as functions that
  return a sum: \<open>Inl\<close> is the call of \<^verbatim>\<open>error\<close> (message on stderr, exit with
  \<^verbatim>\<open>EXIT_FAILURE\<close>). The concurrent part is embedded as a labelled transition
  system: every process has a program counter and its local variables, a step of one
  process executes one access to the shared block (or one library call) and yields the
  action it performed, and a run is a schedule, the list of the processes that step,
  each with the value the environment supplies to that step (what \<^verbatim>\<open>rand()\<close> returns,
  whether \<^verbatim>\<open>fork\<close> succeeds). Shared memory is sequentially consistent in the model;
  time is not modelled: a sleep is a step without effect on the shared block, and the
  schedule decides who runs next.
\<close>

subsection \<open>Data model (lines 42-94)\<close>

datatype WorkerAction =
  WA_STARTED | WA_SERVING_START | WA_SERVING_END | WA_BREAK_START | WA_BREAK_END | WA_FINISHED

datatype ClientAction =
  CA_STARTED | CA_ENTERING_OFFICE | CA_CALLED_BY_WORKER | CA_FINISHED

text \<open>
  One line of \<^verbatim>\<open>proj2.out\<close> without its number: the format strings of
  \<^verbatim>\<open>log_client\<close>, \<^verbatim>\<open>log_worker\<close> and \<^verbatim>\<open>log_office\<close> with the values they print.
\<close>

datatype line =
    Z_started nat               \<comment> \<open>\<^verbatim>\<open>Z %d: started\<close>\<close>
  | Z_entering nat nat          \<comment> \<open>\<^verbatim>\<open>Z %d: entering office for a service %d\<close>\<close>
  | Z_called nat                \<comment> \<open>\<^verbatim>\<open>Z %d: called by office worker\<close>\<close>
  | Z_going_home nat            \<comment> \<open>\<^verbatim>\<open>Z %d: going home\<close>\<close>
  | U_started nat               \<comment> \<open>\<^verbatim>\<open>U %d: started\<close>\<close>
  | U_serving nat nat           \<comment> \<open>\<^verbatim>\<open>U %d: serving a service of type %d\<close>\<close>
  | U_service_finished nat      \<comment> \<open>\<^verbatim>\<open>U %d: service finished\<close>\<close>
  | U_taking_break nat          \<comment> \<open>\<^verbatim>\<open>U %d: taking break\<close>\<close>
  | U_break_finished nat        \<comment> \<open>\<^verbatim>\<open>U %d: break finished\<close>\<close>
  | U_going_home nat            \<comment> \<open>\<^verbatim>\<open>U %d: going home\<close>\<close>
  | Closing                     \<comment> \<open>\<^verbatim>\<open>closing\<close>\<close>

text \<open>
  \<^verbatim>\<open>struct mem\<close>. The output file is the list of the lines written so far, each with
  the number printed in front of it. \<open>lines_count\<close> is a \<^verbatim>\<open>size_t\<close> and the counters
  of the queues are \<^verbatim>\<open>int\<close>: they are unbounded here (a run would need 2^64 lines, or
  2^31 clients, to leave the machine ranges).

  A semaphore is the value word of its \<^verbatim>\<open>sem_t\<close>: on Linux (x86-64, glibc) the first 32
  bits of the object, an unsigned count (a number from 0 to 2^32 - 1). The fields lie in the block in the order of the
  declaration: \<^verbatim>\<open>lines_count\<close> at offset 0, \<^verbatim>\<open>post_open\<close> at 8, \<^verbatim>\<open>queue[0]\<close>,
  \<^verbatim>\<open>queue[1]\<close>, \<^verbatim>\<open>queue[2]\<close> at 12, 16 and 20, \<^verbatim>\<open>output\<close> at 24, then \<^verbatim>\<open>mutex\<close>,
  \<^verbatim>\<open>queue_sem[0..2]\<close>, \<^verbatim>\<open>post_closed\<close> and \<^verbatim>\<open>leaving\<close>, 32 bytes each. So
  \<^verbatim>\<open>queue[3]\<close>, one past the array, is the value word of \<^verbatim>\<open>output\<close>, and
  \<^verbatim>\<open>queue_sem[3]\<close> is \<^verbatim>\<open>post_closed\<close>.
\<close>

record SharedMemory =
  lines_count :: nat
  post_open :: bool
  queue :: "int list"
  output_sem :: int
  mutex :: int
  queue_sem :: "int list"
  post_closed :: int
  leaving :: int
  file_out :: "(nat \<times> line) list"

datatype sem = S_output | S_mutex | S_queue nat | S_post_closed | S_leaving

subsection \<open>error, check\_range, parse\_int\_arg and the arguments of main (lines 96-125, 437-456)\<close>

datatype fatal = Exit_failure string

definition error :: "string \<Rightarrow> fatal" where
  "error msg = Exit_failure msg"

definition check_range :: "int \<Rightarrow> int \<Rightarrow> int \<Rightarrow> bool" where
  "check_range num min_v max_v = (num \<ge> min_v \<and> num \<le> max_v)"

text \<open>
  \<^verbatim>\<open>strtol(arg, &temp, 10)\<close> of the C library, as the C standard describes it: white
  space is skipped, a sign is optional, then come decimal digits; without a digit nothing
  is converted, the result is 0 and \<^verbatim>\<open>temp\<close> is \<^verbatim>\<open>arg\<close> itself; a value outside
  \<^verbatim>\<open>long\<close> is clamped. The result is the value and the rest of the string.
  \<^verbatim>\<open>long\<close> has 64 bits and \<^verbatim>\<open>int\<close> 32 (Linux, LP64); the cast \<^verbatim>\<open>(int)result\<close>
  keeps the low 32 bits.
\<close>

definition isspace :: "char \<Rightarrow> bool" where
  "isspace c = ((of_char c :: nat) = 32 \<or> (9 \<le> (of_char c :: nat) \<and> (of_char c :: nat) \<le> 13))"

definition isdigit :: "char \<Rightarrow> bool" where
  "isdigit c = (48 \<le> (of_char c :: nat) \<and> (of_char c :: nat) \<le> 57)"

fun strtol_digits :: "nat \<Rightarrow> string \<Rightarrow> nat \<times> string" where
  "strtol_digits acc [] = (acc, [])"
| "strtol_digits acc (c # cs) =
     (if isdigit c then strtol_digits (10 * acc + (of_char c - 48)) cs else (acc, c # cs))"

definition LONG_MAX :: int where
  "LONG_MAX = 2 ^ 63 - 1"

definition LONG_MIN :: int where
  "LONG_MIN = - (2 ^ 63)"

definition strtol :: "string \<Rightarrow> int \<times> string" where
  "strtol nptr =
     (let s = dropWhile isspace nptr;
          neg = (s \<noteq> [] \<and> hd s = CHR ''-'');
          s1 = (if s \<noteq> [] \<and> (hd s = CHR ''-'' \<or> hd s = CHR ''+'') then tl s else s)
      in if s1 = [] \<or> \<not> isdigit (hd s1) then (0, nptr)
         else (let (v, rest) = strtol_digits 0 s1;
                   r = (if neg then - int v else int v)
               in (max LONG_MIN (min LONG_MAX r), rest)))"

definition int_of_long :: "int \<Rightarrow> int" where
  "int_of_long r = sint (word_of_int r :: 32 word)"

definition parse_int_arg :: "string \<Rightarrow> fatal + int" where
  "parse_int_arg arg =
     (let (result, temp) = strtol arg
      in if length temp \<noteq> 0 then Inl (error ''Invalid argument'')
         else Inr (int_of_long result))"

record args =
  NZ :: int
  NU :: int
  TZ :: int
  TU :: int
  F :: int

text \<open>
  Lines 439-456 of \<^verbatim>\<open>main\<close>: the count of the arguments, the five calls of
  \<^verbatim>\<open>parse_int_arg\<close> in their order, the ranges. \<open>argv\<close> holds the name of the program
  first, as in C.
\<close>

definition main_args :: "string list \<Rightarrow> fatal + args" where
  "main_args argv =
     (if length argv \<noteq> 6 then Inl (error ''Invalid number of arguments'')
      else case parse_int_arg (argv ! 1) of Inl e \<Rightarrow> Inl e | Inr nz \<Rightarrow>
           case parse_int_arg (argv ! 2) of Inl e \<Rightarrow> Inl e | Inr nu \<Rightarrow>
           case parse_int_arg (argv ! 3) of Inl e \<Rightarrow> Inl e | Inr tz \<Rightarrow>
           case parse_int_arg (argv ! 4) of Inl e \<Rightarrow> Inl e | Inr tu \<Rightarrow>
           case parse_int_arg (argv ! 5) of Inl e \<Rightarrow> Inl e | Inr f \<Rightarrow>
           if \<not> (nz > 0 \<and> nu > 0 \<and> check_range tz 0 10000 \<and> check_range tu 0 100
                 \<and> check_range f 0 10000)
           then Inl (error ''Invalid input arguments'')
           else Inr \<lparr>NZ = nz, NU = nu, TZ = tz, TU = tu, F = f\<rparr>)"

text \<open>
  The macro \<^verbatim>\<open>RAND(min, max)\<close>, \<^verbatim>\<open>rand() % (max - min + 1) + min\<close>, on the value \<open>r\<close>
  that \<^verbatim>\<open>rand()\<close> returned (never negative, so \<^verbatim>\<open>%\<close> is \<open>mod\<close>); \<^verbatim>\<open>random_int\<close>
  returns it, \<^verbatim>\<open>random_sleep\<close> sleeps that many milliseconds.
\<close>

definition RAND :: "nat \<Rightarrow> int \<Rightarrow> int \<Rightarrow> int" where
  "RAND r min_v max_v = int r mod (max_v - min_v + 1) + min_v"

definition random_int :: "nat \<Rightarrow> int \<Rightarrow> int \<Rightarrow> int" where
  "random_int r min_v max_v = RAND r min_v max_v"

definition random_sleep :: "nat \<Rightarrow> int \<Rightarrow> int \<Rightarrow> int" where
  "random_sleep r min_v max_v = RAND r min_v max_v"

subsection \<open>Semaphores and the shared block (lines 144-194)\<close>

definition sem_get :: "sem \<Rightarrow> SharedMemory \<Rightarrow> int" where
  "sem_get s m = (case s of S_output \<Rightarrow> output_sem m | S_mutex \<Rightarrow> mutex m
     | S_queue i \<Rightarrow> queue_sem m ! i | S_post_closed \<Rightarrow> post_closed m | S_leaving \<Rightarrow> leaving m)"

definition sem_put :: "sem \<Rightarrow> int \<Rightarrow> SharedMemory \<Rightarrow> SharedMemory" where
  "sem_put s v m = (case s of S_output \<Rightarrow> m\<lparr>output_sem := v\<rparr> | S_mutex \<Rightarrow> m\<lparr>mutex := v\<rparr>
     | S_queue i \<Rightarrow> m\<lparr>queue_sem := (queue_sem m)[i := v]\<rparr>
     | S_post_closed \<Rightarrow> m\<lparr>post_closed := v\<rparr> | S_leaving \<Rightarrow> m\<lparr>leaving := v\<rparr>)"

text \<open>
  What the operating system holds for the process: the mapping, the open file and the
  initialised semaphores. The outcomes of the system calls are inputs.
\<close>

datatype resource = R_mapping | R_file | R_sem sem

record os =
  mmap_ok :: bool
  fopen_ok :: bool
  sem_init_ok :: "sem \<Rightarrow> bool"
  sem_destroy_ok :: "sem \<Rightarrow> bool"
  munmap_ok :: bool

definition sem_order :: "sem list" where
  "sem_order = [S_mutex, S_output, S_leaving, S_post_closed, S_queue 0, S_queue 1, S_queue 2]"

definition sem_initial :: "sem \<Rightarrow> int" where
  "sem_initial s = (if s = S_mutex \<or> s = S_output then 1 else 0)"

text \<open>
  \<^verbatim>\<open>INIT_SEM\<close> for each semaphore in the order of \<^verbatim>\<open>Semaphores_init\<close>; a failure is
  \<^verbatim>\<open>error\<close> at once, with what is live at that moment.
\<close>

fun init_sems :: "(sem \<Rightarrow> bool) \<Rightarrow> sem list \<Rightarrow> resource list \<Rightarrow> SharedMemory
    \<Rightarrow> (fatal \<times> resource list) + (resource list \<times> SharedMemory)" where
  "init_sems ok [] live m = Inr (live, m)"
| "init_sems ok (s # ss) live m =
     (if ok s then init_sems ok ss (live @ [R_sem s]) (sem_put s (sem_initial s) m)
      else Inl (error ''Failed to initialize semaphore'', live))"

definition Semaphores_init :: "os \<Rightarrow> resource list \<Rightarrow> SharedMemory
    \<Rightarrow> (fatal \<times> resource list) + (resource list \<times> SharedMemory)" where
  "Semaphores_init env live m = init_sems (sem_init_ok env) sem_order live m"

text \<open>The block as \<^verbatim>\<open>mmap\<close> with \<^verbatim>\<open>MAP_ANONYMOUS\<close> returns it: all zero.\<close>

definition zeroed :: SharedMemory where
  "zeroed = \<lparr>lines_count = 0, post_open = False, queue = [0, 0, 0], output_sem = 0, mutex = 0,
     queue_sem = [0, 0, 0], post_closed = 0, leaving = 0, file_out = []\<rparr>"

definition SharedMemory_init :: "os \<Rightarrow> (fatal \<times> resource list) + (resource list \<times> SharedMemory)" where
  "SharedMemory_init env =
     (if \<not> mmap_ok env then Inl (error ''Failed to allocate memory'', [])
      else let memory = zeroed\<lparr>lines_count := 0, post_open := True\<rparr>
           in if \<not> fopen_ok env then Inl (error ''Failed to open output file'', [R_mapping])
              else Semaphores_init env [R_mapping, R_file] memory)"

fun destroy_sems :: "(sem \<Rightarrow> bool) \<Rightarrow> sem list \<Rightarrow> resource list
    \<Rightarrow> (fatal \<times> resource list) + resource list" where
  "destroy_sems ok [] live = Inr live"
| "destroy_sems ok (s # ss) live =
     (if ok s then destroy_sems ok ss (removeAll (R_sem s) live)
      else Inl (error ''Failed to destroy semaphore'', live))"

definition Semaphores_destroy :: "os \<Rightarrow> resource list \<Rightarrow> (fatal \<times> resource list) + resource list" where
  "Semaphores_destroy env live = destroy_sems (sem_destroy_ok env) sem_order live"

definition SharedMemory_destroy :: "os \<Rightarrow> resource list \<Rightarrow> (fatal \<times> resource list) + resource list" where
  "SharedMemory_destroy env live =
     (case Semaphores_destroy env live of
        Inl e \<Rightarrow> Inl e
      | Inr live1 \<Rightarrow>
          (let live2 = removeAll R_file live1
           in if \<not> munmap_ok env then Inl (error ''Failed to free memory'', live2)
              else Inr (removeAll R_mapping live2)))"

text \<open>
  \<^verbatim>\<open>main\<close> up to the first \<^verbatim>\<open>fork\<close> (lines 437-461): the arguments, then the shared
  block. \<open>Inl\<close> is the exit with failure, with the resources the process holds at that
  moment.
\<close>

definition main_start :: "string list \<Rightarrow> os \<Rightarrow> (fatal \<times> resource list) + (args \<times> resource list \<times> SharedMemory)" where
  "main_start argv env =
     (case main_args argv of
        Inl e \<Rightarrow> Inl (e, [])
      | Inr a \<Rightarrow>
          (case SharedMemory_init env of
             Inl e \<Rightarrow> Inl e
           | Inr (live, memory) \<Rightarrow> Inr (a, live, memory)))"

text \<open>
  Lines 468-471 and 479-482 of \<^verbatim>\<open>main\<close>, when \<^verbatim>\<open>fork\<close> fails:
  \<^verbatim>\<open>SharedMemory_destroy(shared)\<close>, then \<^verbatim>\<open>error\<close>. The result is the exit with
  failure and the resources the process holds at that moment.
\<close>

definition main_fork_failed :: "os \<Rightarrow> resource list \<Rightarrow> fatal \<times> resource list" where
  "main_fork_failed env live =
     (case SharedMemory_destroy env live of
        Inl e \<Rightarrow> e
      | Inr live' \<Rightarrow> (error ''Failed to fork a process'', live'))"

subsection \<open>Steps, actions and the three log functions (lines 196-268)\<close>

text \<open>
  A step that cannot be taken is \<open>Inl\<close>: the process waits on a semaphore whose
  counter is 0, it has exited, it does not exist, an index is outside what the layout
  above covers (no run reaches such an index), or \<^verbatim>\<open>fork\<close> failed (the orchestrator
  destroys the block under its children and exits with failure; the model follows it no
  further).
\<close>

datatype fault = Blocked | Exited | No_process | Out_of_bounds | Fork_failed

datatype pid = P_main | P_client nat | P_worker nat

datatype action =
    Sem_wait sem
  | Sem_post sem
  | Read_open bool              \<comment> \<open>read of \<^verbatim>\<open>post_open\<close>, with the value read\<close>
  | Write_open bool
  | Read_queues bool            \<comment> \<open>\<^verbatim>\<open>check_queues\<close> under the mutex, with its result\<close>
  | Read_queue nat int          \<comment> \<open>read of \<^verbatim>\<open>queue[i]\<close>, with the value read\<close>
  | Inc_queue nat
  | Dec_queue nat
  | Read_lines nat              \<comment> \<open>read of \<^verbatim>\<open>lines_count\<close>, with the value read\<close>
  | Write_lines nat             \<comment> \<open>write of \<^verbatim>\<open>lines_count\<close>\<close>
  | Write_line nat line         \<comment> \<open>a line written to the file, with its number\<close>
  | Random int
  | Sleep int
  | Fork pid
  | Wait_children
  | Destroy
  | Exit_success

definition sem_wait :: "sem \<Rightarrow> SharedMemory \<Rightarrow> fault + (action \<times> SharedMemory)" where
  "sem_wait s m =
     (if sem_get s m = 0 then Inl Blocked else Inr (Sem_wait s, sem_put s (sem_get s m - 1) m))"

text \<open>
  \<^verbatim>\<open>sem_post\<close> adds one to the value word, modulo 2^32; at \<^verbatim>\<open>SEM_VALUE_MAX\<close> it leaves
  the word as it is and returns -1 (\<^verbatim>\<open>EOVERFLOW\<close>), which the program does not look at.
  \<open>int_decrement\<close> is \<^verbatim>\<open>--\<close> on an \<^verbatim>\<open>int\<close> that lies in such a word: a subtraction on
  32 bits.
\<close>

definition SEM_VALUE_MAX :: int where
  "SEM_VALUE_MAX = 2 ^ 31 - 1"

definition posted_value :: "int \<Rightarrow> int" where
  "posted_value v = (if v = SEM_VALUE_MAX then v else (v + 1) mod 2 ^ 32)"

definition int_decrement :: "int \<Rightarrow> int" where
  "int_decrement v = (v - 1) mod 2 ^ 32"

definition sem_post :: "sem \<Rightarrow> SharedMemory \<Rightarrow> action \<times> SharedMemory" where
  "sem_post s m = (Sem_post s, sem_put s (posted_value (sem_get s m)) m)"

text \<open>
  The body shared by \<^verbatim>\<open>log_client\<close>, \<^verbatim>\<open>log_worker\<close> and \<^verbatim>\<open>log_office\<close>, in five
  steps: \<^verbatim>\<open>sem_wait(&memory->output)\<close>; the read of \<^verbatim>\<open>lines_count\<close> for
  \<^verbatim>\<open>++memory->lines_count\<close>; the write of the incremented value; the \<^verbatim>\<open>fprintf\<close> and
  \<^verbatim>\<open>fflush\<close> of the line that carries this value (the buffer of the file belongs to
  the process, the line reaches the file at the \<^verbatim>\<open>fflush\<close>);
  \<^verbatim>\<open>sem_post(&memory->output)\<close>. \<open>tmp\<close> is the value read. The result names the next
  phase, \<open>None\<close> when the function returns.
\<close>

datatype log_phase = L_wait | L_load | L_store | L_print | L_post

fun log_step :: "line \<Rightarrow> log_phase \<Rightarrow> SharedMemory \<Rightarrow> nat
    \<Rightarrow> fault + (action \<times> SharedMemory \<times> nat \<times> log_phase option)" where
  "log_step l L_wait m tmp =
     (case sem_wait S_output m of
        Inl f \<Rightarrow> Inl f
      | Inr (a, m') \<Rightarrow> Inr (a, m', tmp, Some L_load))"
| "log_step l L_load m tmp = Inr (Read_lines (lines_count m), m, lines_count m, Some L_store)"
| "log_step l L_store m tmp = Inr (Write_lines (tmp + 1), m\<lparr>lines_count := tmp + 1\<rparr>, tmp, Some L_print)"
| "log_step l L_print m tmp =
     Inr (Write_line (tmp + 1) l, m\<lparr>file_out := file_out m @ [(tmp + 1, l)]\<rparr>, tmp, Some L_post)"
| "log_step l L_post m tmp =
     (case sem_post S_output m of (a, m') \<Rightarrow> Inr (a, m', tmp, None))"

text \<open>The \<^verbatim>\<open>switch\<close> of \<^verbatim>\<open>log_client\<close> and of \<^verbatim>\<open>log_worker\<close>: the line of an action.\<close>

fun log_client :: "nat \<Rightarrow> nat \<Rightarrow> ClientAction \<Rightarrow> line" where
  "log_client ident service CA_STARTED = Z_started ident"
| "log_client ident service CA_ENTERING_OFFICE = Z_entering ident service"
| "log_client ident service CA_CALLED_BY_WORKER = Z_called ident"
| "log_client ident service CA_FINISHED = Z_going_home ident"

fun log_worker :: "nat \<Rightarrow> nat \<Rightarrow> WorkerAction \<Rightarrow> line" where
  "log_worker ident service WA_STARTED = U_started ident"
| "log_worker ident service WA_SERVING_START = U_serving ident service"
| "log_worker ident service WA_SERVING_END = U_service_finished ident"
| "log_worker ident service WA_BREAK_START = U_taking_break ident"
| "log_worker ident service WA_BREAK_END = U_break_finished ident"
| "log_worker ident service WA_FINISHED = U_going_home ident"

definition log_office :: line where
  "log_office = Closing"

subsection \<open>The client process (lines 274-318)\<close>

text \<open>
  The program points of \<^verbatim>\<open>process_client\<close>, each with the line of the source it
  stands before. \<open>C_log\<close> is inside a call of \<^verbatim>\<open>log_client\<close> (lines 275, 300, 312,
  314), \<open>C_log_closed\<close> inside the call of line 303.
\<close>

datatype client_pc =
    C_log ClientAction log_phase
  | C_arrive                    \<comment> \<open>279 \<^verbatim>\<open>random_sleep(0, TZ)\<close>\<close>
  | C_select                    \<comment> \<open>282 \<^verbatim>\<open>service = random_int(1, 3)\<close>\<close>
  | C_lock                      \<comment> \<open>289 \<^verbatim>\<open>sem_wait(&memory->mutex)\<close>\<close>
  | C_read_open                 \<comment> \<open>290 \<^verbatim>\<open>is_post_open = memory->post_open\<close>\<close>
  | C_unlock                    \<comment> \<open>291 \<^verbatim>\<open>sem_post(&memory->mutex)\<close>\<close>
  | C_recheck                   \<comment> \<open>293 \<^verbatim>\<open>is_post_open == memory->post_open\<close>\<close>
  | C_lock_queue                \<comment> \<open>296\<close>
  | C_incr                      \<comment> \<open>297 \<^verbatim>\<open>memory->queue[service - 1]++\<close>\<close>
  | C_unlock_queue              \<comment> \<open>298\<close>
  | C_log_closed log_phase      \<comment> \<open>303\<close>
  | C_exit_closed               \<comment> \<open>304 \<^verbatim>\<open>exit(EXIT_SUCCESS)\<close>\<close>
  | C_wait_call                 \<comment> \<open>308 \<^verbatim>\<open>sem_wait(&memory->queue_sem[service - 1])\<close>\<close>
  | C_served                    \<comment> \<open>313 \<^verbatim>\<open>random_sleep(0, 10)\<close>\<close>
  | C_exit                      \<comment> \<open>317 \<^verbatim>\<open>exit(EXIT_SUCCESS)\<close>\<close>
  | C_done

record client =
  c_id :: nat
  c_TZ :: int
  c_pc :: client_pc
  service :: nat
  is_post_open :: bool
  c_tmp :: nat

text \<open>Where \<^verbatim>\<open>process_client\<close> continues when a call of \<^verbatim>\<open>log_client\<close> returns.\<close>

fun client_after_log :: "ClientAction \<Rightarrow> client_pc" where
  "client_after_log CA_STARTED = C_arrive"
| "client_after_log CA_ENTERING_OFFICE = C_wait_call"
| "client_after_log CA_CALLED_BY_WORKER = C_served"
| "client_after_log CA_FINISHED = C_exit"

fun client_at :: "client_pc \<Rightarrow> SharedMemory \<Rightarrow> client \<Rightarrow> nat
    \<Rightarrow> fault + (action \<times> SharedMemory \<times> client)" where
  "client_at (C_log a ph) m c r =
     (case log_step (log_client (c_id c) (if a = CA_STARTED then 0 else service c) a) ph m (c_tmp c) of
        Inl f \<Rightarrow> Inl f
      | Inr (act, m', t, nxt) \<Rightarrow>
          Inr (act, m', c\<lparr>c_tmp := t,
                 c_pc := (case nxt of Some ph' \<Rightarrow> C_log a ph' | None \<Rightarrow> client_after_log a)\<rparr>))"
| "client_at C_arrive m c r = Inr (Sleep (random_sleep r 0 (c_TZ c)), m, c\<lparr>c_pc := C_select\<rparr>)"
| "client_at C_select m c r =
     Inr (Random (random_int r 1 3), m, c\<lparr>service := nat (random_int r 1 3), c_pc := C_lock\<rparr>)"
| "client_at C_lock m c r =
     (case sem_wait S_mutex m of
        Inl f \<Rightarrow> Inl f
      | Inr (act, m') \<Rightarrow> Inr (act, m', c\<lparr>c_pc := C_read_open\<rparr>))"
| "client_at C_read_open m c r =
     Inr (Read_open (post_open m), m, c\<lparr>is_post_open := post_open m, c_pc := C_unlock\<rparr>)"
| "client_at C_unlock m c r =
     (case sem_post S_mutex m of
        (act, m') \<Rightarrow>
          Inr (act, m', c\<lparr>c_pc := (if is_post_open c then C_recheck else C_log_closed L_wait)\<rparr>))"
| "client_at C_recheck m c r =
     Inr (Read_open (post_open m), m,
          c\<lparr>c_pc := (if is_post_open c = post_open m then C_lock_queue else C_log_closed L_wait)\<rparr>)"
| "client_at C_lock_queue m c r =
     (case sem_wait S_mutex m of
        Inl f \<Rightarrow> Inl f
      | Inr (act, m') \<Rightarrow> Inr (act, m', c\<lparr>c_pc := C_incr\<rparr>))"
| "client_at C_incr m c r =
     (if 0 < service c \<and> service c - 1 < 3
      then Inr (Inc_queue (service c - 1),
                m\<lparr>queue := (queue m)[service c - 1 := queue m ! (service c - 1) + 1]\<rparr>,
                c\<lparr>c_pc := C_unlock_queue\<rparr>)
      else Inl Out_of_bounds)"
| "client_at C_unlock_queue m c r =
     (case sem_post S_mutex m of
        (act, m') \<Rightarrow> Inr (act, m', c\<lparr>c_pc := C_log CA_ENTERING_OFFICE L_wait\<rparr>))"
| "client_at (C_log_closed ph) m c r =
     (case log_step (log_client (c_id c) (service c) CA_FINISHED) ph m (c_tmp c) of
        Inl f \<Rightarrow> Inl f
      | Inr (act, m', t, nxt) \<Rightarrow>
          Inr (act, m', c\<lparr>c_tmp := t,
                 c_pc := (case nxt of Some ph' \<Rightarrow> C_log_closed ph' | None \<Rightarrow> C_exit_closed)\<rparr>))"
| "client_at C_exit_closed m c r = Inr (Exit_success, m, c\<lparr>c_pc := C_done\<rparr>)"
| "client_at C_wait_call m c r =
     (if 0 < service c \<and> service c - 1 < 3
      then (case sem_wait (S_queue (service c - 1)) m of
              Inl f \<Rightarrow> Inl f
            | Inr (act, m') \<Rightarrow> Inr (act, m', c\<lparr>c_pc := C_log CA_CALLED_BY_WORKER L_wait\<rparr>))
      else Inl Out_of_bounds)"
| "client_at C_served m c r =
     Inr (Sleep (random_sleep r 0 10), m, c\<lparr>c_pc := C_log CA_FINISHED L_wait\<rparr>)"
| "client_at C_exit m c r = Inr (Exit_success, m, c\<lparr>c_pc := C_done\<rparr>)"
| "client_at C_done m c r = Inl Exited"

definition process_client :: "SharedMemory \<Rightarrow> client \<Rightarrow> nat
    \<Rightarrow> fault + (action \<times> SharedMemory \<times> client)" where
  "process_client m c r = client_at (c_pc c) m c r"

subsection \<open>The worker process (lines 322-432)\<close>

definition check_queues :: "SharedMemory \<Rightarrow> bool" where
  "check_queues m = (queue m ! 0 > 0 \<or> queue m ! 1 > 0 \<or> queue m ! 2 > 0)"

text \<open>
  The program points of \<^verbatim>\<open>process_worker\<close>. The call of \<^verbatim>\<open>check_queues\<close> at line
  340 holds the mutex, as every write of a counter does, so its three reads are one
  step; the call at line 400 holds no lock and reads the counters one by one
  (\<open>W_recheck\<close>, with the index in \<open>w_i\<close>), as do the scan of lines 354-355 and the loop
  of lines 412-416. Tests of local variables only belong to the step before them.

  The scan of lines 354-355 leaves \<^verbatim>\<open>queue\<close> at 4 when its three reads find nothing.
  Line 360 then decrements \<^verbatim>\<open>queue[3]\<close>, the value word of \<^verbatim>\<open>output\<close> (a subtraction
  on 32 bits, which wraps), line 364 posts \<^verbatim>\<open>queue_sem[3]\<close>, which is
  \<^verbatim>\<open>post_closed\<close>, and line 368 logs a service of type 4.
\<close>

datatype worker_pc =
    W_log WorkerAction log_phase  \<comment> \<open>331, 368, 370, 383, 392, 424\<close>
  | W_lock                      \<comment> \<open>339 \<^verbatim>\<open>sem_wait(&memory->mutex)\<close>\<close>
  | W_check_queues              \<comment> \<open>340 \<^verbatim>\<open>has_clients = check_queues(memory)\<close>\<close>
  | W_read_open                 \<comment> \<open>341 \<^verbatim>\<open>post_open = memory->post_open\<close>\<close>
  | W_unlock                    \<comment> \<open>342, and the tests of lines 347, 375, 397\<close>
  | W_pick                      \<comment> \<open>352 \<^verbatim>\<open>queue = random_int(1, 3)\<close>\<close>
  | W_test_pick                 \<comment> \<open>353 \<^verbatim>\<open>memory->queue[queue - 1] == 0\<close>\<close>
  | W_scan                      \<comment> \<open>354-355, one read of the loop\<close>
  | W_lock_dec                  \<comment> \<open>359\<close>
  | W_dec                       \<comment> \<open>360 \<^verbatim>\<open>memory->queue[queue - 1]--\<close>\<close>
  | W_unlock_dec                \<comment> \<open>361\<close>
  | W_call                      \<comment> \<open>364 \<^verbatim>\<open>sem_post(&memory->queue_sem[queue - 1])\<close>\<close>
  | W_serve                     \<comment> \<open>369 \<^verbatim>\<open>random_sleep(0, 10)\<close>\<close>
  | W_ensure_open               \<comment> \<open>377 \<^verbatim>\<open>if (!memory->post_open) continue\<close>\<close>
  | W_break_closed              \<comment> \<open>386 \<^verbatim>\<open>if (!memory->post_open)\<close>\<close>
  | W_post_leaving_break        \<comment> \<open>388-389 \<^verbatim>\<open>sem_post(&memory->leaving); is_leaving = 1\<close>\<close>
  | W_break                     \<comment> \<open>391 \<^verbatim>\<open>random_sleep(0, TU)\<close>\<close>
  | W_recheck                   \<comment> \<open>400 \<^verbatim>\<open>check_queues(memory)\<close>, one read; then the test of 406\<close>
  | W_post_leaving              \<comment> \<open>408 \<^verbatim>\<open>sem_post(&memory->leaving)\<close>\<close>
  | W_release                   \<comment> \<open>413 \<^verbatim>\<open>memory->queue[i] > 0\<close>\<close>
  | W_release_post              \<comment> \<open>414 \<^verbatim>\<open>sem_post(&memory->queue_sem[i])\<close>\<close>
  | W_wait_closed               \<comment> \<open>420 \<^verbatim>\<open>sem_wait(&memory->post_closed)\<close>\<close>
  | W_exit                      \<comment> \<open>425 \<^verbatim>\<open>exit(EXIT_SUCCESS)\<close>\<close>
  | W_done

text \<open>
  The local variables of \<^verbatim>\<open>process_worker\<close>; \<open>w_post_open\<close> and \<open>w_queue\<close> are its
  \<^verbatim>\<open>post_open\<close> and \<^verbatim>\<open>queue\<close>, \<open>w_i\<close> the index of its loops.
\<close>

record worker =
  w_id :: nat
  w_TU :: int
  w_pc :: worker_pc
  has_clients :: bool
  w_post_open :: bool
  is_leaving :: bool
  w_queue :: nat
  w_i :: nat
  w_tmp :: nat

text \<open>Where \<^verbatim>\<open>process_worker\<close> continues when a call of \<^verbatim>\<open>log_worker\<close> returns.\<close>

fun worker_after_log :: "WorkerAction \<Rightarrow> worker_pc" where
  "worker_after_log WA_STARTED = W_lock"
| "worker_after_log WA_SERVING_START = W_serve"
| "worker_after_log WA_SERVING_END = W_lock"
| "worker_after_log WA_BREAK_START = W_break_closed"
| "worker_after_log WA_BREAK_END = W_lock"
| "worker_after_log WA_FINISHED = W_exit"

text \<open>The three \<^verbatim>\<open>if\<close> of the loop body (lines 347, 375, 397), on the snapshot.\<close>

definition worker_branch :: "worker \<Rightarrow> worker" where
  "worker_branch w =
     (if has_clients w then w\<lparr>w_pc := W_pick\<rparr>
      else if w_post_open w then w\<lparr>w_pc := W_ensure_open\<rparr>
      else w\<lparr>w_pc := W_recheck, w_i := 0\<rparr>)"

text \<open>The end of one turn of the loop of lines 412-416: \<^verbatim>\<open>i++\<close> and \<^verbatim>\<open>i < 3\<close>.\<close>

definition release_next :: "worker \<Rightarrow> worker" where
  "release_next w =
     (if w_i w + 1 < 3 then w\<lparr>w_i := w_i w + 1, w_pc := W_release\<rparr>
      else w\<lparr>w_i := w_i w + 1, w_pc := W_wait_closed\<rparr>)"

fun worker_at :: "worker_pc \<Rightarrow> SharedMemory \<Rightarrow> worker \<Rightarrow> nat
    \<Rightarrow> fault + (action \<times> SharedMemory \<times> worker)" where
  "worker_at (W_log a ph) m w r =
     (case log_step (log_worker (w_id w)
             (if a = WA_SERVING_START \<or> a = WA_SERVING_END then w_queue w else 0) a) ph m (w_tmp w) of
        Inl f \<Rightarrow> Inl f
      | Inr (act, m', t, nxt) \<Rightarrow>
          Inr (act, m', w\<lparr>w_tmp := t,
                 w_pc := (case nxt of Some ph' \<Rightarrow> W_log a ph' | None \<Rightarrow> worker_after_log a)\<rparr>))"
| "worker_at W_lock m w r =
     (case sem_wait S_mutex m of
        Inl f \<Rightarrow> Inl f
      | Inr (act, m') \<Rightarrow> Inr (act, m', w\<lparr>w_pc := W_check_queues\<rparr>))"
| "worker_at W_check_queues m w r =
     Inr (Read_queues (check_queues m), m, w\<lparr>has_clients := check_queues m, w_pc := W_read_open\<rparr>)"
| "worker_at W_read_open m w r =
     Inr (Read_open (post_open m), m, w\<lparr>w_post_open := post_open m, w_pc := W_unlock\<rparr>)"
| "worker_at W_unlock m w r =
     (case sem_post S_mutex m of (act, m') \<Rightarrow> Inr (act, m', worker_branch w))"
| "worker_at W_pick m w r =
     Inr (Random (random_int r 1 3), m, w\<lparr>w_queue := nat (random_int r 1 3), w_pc := W_test_pick\<rparr>)"
| "worker_at W_test_pick m w r =
     (if 0 < w_queue w \<and> w_queue w - 1 < 3
      then Inr (Read_queue (w_queue w - 1) (queue m ! (w_queue w - 1)), m,
                if queue m ! (w_queue w - 1) = 0 then w\<lparr>w_queue := 1, w_pc := W_scan\<rparr>
                else w\<lparr>w_pc := W_lock_dec\<rparr>)
      else Inl Out_of_bounds)"
| "worker_at W_scan m w r =
     (if 0 < w_queue w \<and> w_queue w - 1 < 3
      then Inr (Read_queue (w_queue w - 1) (queue m ! (w_queue w - 1)), m,
                if queue m ! (w_queue w - 1) \<noteq> 0 then w\<lparr>w_pc := W_lock_dec\<rparr>
                else if w_queue w + 1 \<le> 3 then w\<lparr>w_queue := w_queue w + 1\<rparr>
                else w\<lparr>w_queue := w_queue w + 1, w_pc := W_lock_dec\<rparr>)
      else Inl Out_of_bounds)"
| "worker_at W_lock_dec m w r =
     (case sem_wait S_mutex m of
        Inl f \<Rightarrow> Inl f
      | Inr (act, m') \<Rightarrow> Inr (act, m', w\<lparr>w_pc := W_dec\<rparr>))"
| "worker_at W_dec m w r =
     (if 0 < w_queue w \<and> w_queue w - 1 < 3
      then Inr (Dec_queue (w_queue w - 1),
                m\<lparr>queue := (queue m)[w_queue w - 1 := queue m ! (w_queue w - 1) - 1]\<rparr>,
                w\<lparr>w_pc := W_unlock_dec\<rparr>)
      else if w_queue w = 4
      then Inr (Dec_queue 3, m\<lparr>output_sem := int_decrement (output_sem m)\<rparr>,
                w\<lparr>w_pc := W_unlock_dec\<rparr>)
      else Inl Out_of_bounds)"
| "worker_at W_unlock_dec m w r =
     (case sem_post S_mutex m of (act, m') \<Rightarrow> Inr (act, m', w\<lparr>w_pc := W_call\<rparr>))"
| "worker_at W_call m w r =
     (if 0 < w_queue w \<and> w_queue w - 1 < 3
      then (case sem_post (S_queue (w_queue w - 1)) m of
              (act, m') \<Rightarrow> Inr (act, m', w\<lparr>w_pc := W_log WA_SERVING_START L_wait\<rparr>))
      else if w_queue w = 4
      then (case sem_post S_post_closed m of
              (act, m') \<Rightarrow> Inr (act, m', w\<lparr>w_pc := W_log WA_SERVING_START L_wait\<rparr>))
      else Inl Out_of_bounds)"
| "worker_at W_serve m w r =
     Inr (Sleep (random_sleep r 0 10), m, w\<lparr>w_pc := W_log WA_SERVING_END L_wait\<rparr>)"
| "worker_at W_ensure_open m w r =
     Inr (Read_open (post_open m), m,
          w\<lparr>w_pc := (if \<not> post_open m then W_lock else W_log WA_BREAK_START L_wait)\<rparr>)"
| "worker_at W_break_closed m w r =
     Inr (Read_open (post_open m), m,
          w\<lparr>w_pc := (if \<not> post_open m then W_post_leaving_break else W_break)\<rparr>)"
| "worker_at W_post_leaving_break m w r =
     (case sem_post S_leaving m of
        (act, m') \<Rightarrow> Inr (act, m', w\<lparr>is_leaving := True, w_pc := W_break\<rparr>))"
| "worker_at W_break m w r =
     Inr (Sleep (random_sleep r 0 (w_TU w)), m, w\<lparr>w_pc := W_log WA_BREAK_END L_wait\<rparr>)"
| "worker_at W_recheck m w r =
     (if w_i w < 3
      then Inr (Read_queue (w_i w) (queue m ! w_i w), m,
                if queue m ! w_i w > 0 then w\<lparr>w_pc := W_lock\<rparr>
                else if w_i w + 1 < 3 then w\<lparr>w_i := w_i w + 1\<rparr>
                else if \<not> is_leaving w then w\<lparr>w_pc := W_post_leaving\<rparr>
                else w\<lparr>w_i := 0, w_pc := W_release\<rparr>)
      else Inl Out_of_bounds)"
| "worker_at W_post_leaving m w r =
     (case sem_post S_leaving m of
        (act, m') \<Rightarrow> Inr (act, m', w\<lparr>w_i := 0, w_pc := W_release\<rparr>))"
| "worker_at W_release m w r =
     (if w_i w < 3
      then Inr (Read_queue (w_i w) (queue m ! w_i w), m,
                if queue m ! w_i w > 0 then w\<lparr>w_pc := W_release_post\<rparr> else release_next w)
      else Inl Out_of_bounds)"
| "worker_at W_release_post m w r =
     (if w_i w < 3
      then (case sem_post (S_queue (w_i w)) m of (act, m') \<Rightarrow> Inr (act, m', release_next w))
      else Inl Out_of_bounds)"
| "worker_at W_wait_closed m w r =
     (case sem_wait S_post_closed m of
        Inl f \<Rightarrow> Inl f
      | Inr (act, m') \<Rightarrow> Inr (act, m', w\<lparr>w_pc := W_log WA_FINISHED L_wait\<rparr>))"
| "worker_at W_exit m w r = Inr (Exit_success, m, w\<lparr>w_pc := W_done\<rparr>)"
| "worker_at W_done m w r = Inl Exited"

definition process_worker :: "SharedMemory \<Rightarrow> worker \<Rightarrow> nat
    \<Rightarrow> fault + (action \<times> SharedMemory \<times> worker)" where
  "process_worker m w r = worker_at (w_pc w) m w r"

subsection \<open>The orchestrator after the shared block exists (lines 463-519)\<close>

datatype main_pc =
    M_fork_clients              \<comment> \<open>465 \<^verbatim>\<open>fork()\<close>, then \<^verbatim>\<open>process_client(shared, i + 1, TZ)\<close> in the child\<close>
  | M_fork_workers              \<comment> \<open>476 \<^verbatim>\<open>fork()\<close>, then \<^verbatim>\<open>process_worker(shared, i + 1, TU)\<close> in the child\<close>
  | M_sleep                     \<comment> \<open>488 \<^verbatim>\<open>random_sleep(F / 2, F)\<close>\<close>
  | M_close                     \<comment> \<open>493 \<^verbatim>\<open>shared->post_open = 0\<close>\<close>
  | M_wait_leaving              \<comment> \<open>498 \<^verbatim>\<open>sem_wait(&shared->leaving)\<close>\<close>
  | M_log log_phase             \<comment> \<open>501 \<^verbatim>\<open>log_office(shared)\<close>\<close>
  | M_dismiss                   \<comment> \<open>506 \<^verbatim>\<open>sem_post(&shared->post_closed)\<close>\<close>
  | M_wait_children             \<comment> \<open>511-512\<close>
  | M_destroy                   \<comment> \<open>515 \<^verbatim>\<open>SharedMemory_destroy(shared)\<close>\<close>
  | M_return                    \<comment> \<open>519 \<^verbatim>\<open>return 0\<close>\<close>
  | M_done

record orchestrator =
  m_args :: args
  m_pc :: main_pc
  m_i :: int
  m_tmp :: nat

record config =
  mem :: SharedMemory
  orch :: orchestrator
  clients :: "client list"
  workers :: "worker list"

text \<open>
  The child of a \<^verbatim>\<open>fork\<close> at the first line of its function. The locals that C
  leaves uninitialised have a fixed value here; the source assigns each before it
  reads it.
\<close>

definition new_client :: "nat \<Rightarrow> int \<Rightarrow> client" where
  "new_client ident tz =
     \<lparr>c_id = ident, c_TZ = tz, c_pc = C_log CA_STARTED L_wait, service = 0,
      is_post_open = False, c_tmp = 0\<rparr>"

definition new_worker :: "nat \<Rightarrow> int \<Rightarrow> worker" where
  "new_worker ident tu =
     \<lparr>w_id = ident, w_TU = tu, w_pc = W_log WA_STARTED L_wait, has_clients = False,
      w_post_open = False, is_leaving = False, w_queue = 0, w_i = 0, w_tmp = 0\<rparr>"

text \<open>The loop tests \<^verbatim>\<open>i < NZ\<close> and \<^verbatim>\<open>i < NU\<close> of the four \<^verbatim>\<open>for\<close> loops of \<^verbatim>\<open>main\<close>.\<close>

definition fork_workers_next :: "orchestrator \<Rightarrow> orchestrator" where
  "fork_workers_next st =
     (if m_i st < NU (m_args st) then st\<lparr>m_pc := M_fork_workers\<rparr> else st\<lparr>m_pc := M_sleep\<rparr>)"

definition fork_clients_next :: "orchestrator \<Rightarrow> orchestrator" where
  "fork_clients_next st =
     (if m_i st < NZ (m_args st) then st\<lparr>m_pc := M_fork_clients\<rparr>
      else fork_workers_next (st\<lparr>m_i := 0\<rparr>))"

definition wait_leaving_next :: "orchestrator \<Rightarrow> orchestrator" where
  "wait_leaving_next st =
     (if m_i st < NU (m_args st) then st\<lparr>m_pc := M_wait_leaving\<rparr> else st\<lparr>m_pc := M_log L_wait\<rparr>)"

definition dismiss_next :: "orchestrator \<Rightarrow> orchestrator" where
  "dismiss_next st =
     (if m_i st < NU (m_args st) then st\<lparr>m_pc := M_dismiss\<rparr> else st\<lparr>m_pc := M_wait_children\<rparr>)"

text \<open>
  The loop of lines 511-512 returns when \<^verbatim>\<open>wait\<close> finds no child left: the step is
  taken once every child has exited. \<open>r\<close> at a \<^verbatim>\<open>fork\<close> is 0 when the call succeeds.
\<close>

definition all_exited :: "config \<Rightarrow> bool" where
  "all_exited c = (list_all (\<lambda>x. c_pc x = C_done) (clients c) \<and> list_all (\<lambda>x. w_pc x = W_done) (workers c))"

fun main_at :: "main_pc \<Rightarrow> config \<Rightarrow> nat \<Rightarrow> fault + (action \<times> config)" where
  "main_at M_fork_clients c r =
     (if r = 0
      then Inr (Fork (P_client (length (clients c))),
                c\<lparr>clients := clients c @ [new_client (nat (m_i (orch c) + 1)) (TZ (m_args (orch c)))],
                  orch := fork_clients_next ((orch c)\<lparr>m_i := m_i (orch c) + 1\<rparr>)\<rparr>)
      else Inl Fork_failed)"
| "main_at M_fork_workers c r =
     (if r = 0
      then Inr (Fork (P_worker (length (workers c))),
                c\<lparr>workers := workers c @ [new_worker (nat (m_i (orch c) + 1)) (TU (m_args (orch c)))],
                  orch := fork_workers_next ((orch c)\<lparr>m_i := m_i (orch c) + 1\<rparr>)\<rparr>)
      else Inl Fork_failed)"
| "main_at M_sleep c r =
     Inr (Sleep (random_sleep r (F (m_args (orch c)) div 2) (F (m_args (orch c)))),
          c\<lparr>orch := (orch c)\<lparr>m_pc := M_close\<rparr>\<rparr>)"
| "main_at M_close c r =
     Inr (Write_open False,
          c\<lparr>mem := (mem c)\<lparr>post_open := False\<rparr>,
            orch := wait_leaving_next ((orch c)\<lparr>m_i := 0\<rparr>)\<rparr>)"
| "main_at M_wait_leaving c r =
     (case sem_wait S_leaving (mem c) of
        Inl f \<Rightarrow> Inl f
      | Inr (act, m') \<Rightarrow>
          Inr (act, c\<lparr>mem := m', orch := wait_leaving_next ((orch c)\<lparr>m_i := m_i (orch c) + 1\<rparr>)\<rparr>))"
| "main_at (M_log ph) c r =
     (case log_step log_office ph (mem c) (m_tmp (orch c)) of
        Inl f \<Rightarrow> Inl f
      | Inr (act, m', t, nxt) \<Rightarrow>
          Inr (act, c\<lparr>mem := m',
                 orch := (case nxt of
                            Some ph' \<Rightarrow> (orch c)\<lparr>m_tmp := t, m_pc := M_log ph'\<rparr>
                          | None \<Rightarrow> dismiss_next ((orch c)\<lparr>m_tmp := t, m_i := 0\<rparr>))\<rparr>))"
| "main_at M_dismiss c r =
     (case sem_post S_post_closed (mem c) of
        (act, m') \<Rightarrow>
          Inr (act, c\<lparr>mem := m', orch := dismiss_next ((orch c)\<lparr>m_i := m_i (orch c) + 1\<rparr>)\<rparr>))"
| "main_at M_wait_children c r =
     (if all_exited c then Inr (Wait_children, c\<lparr>orch := (orch c)\<lparr>m_pc := M_destroy\<rparr>\<rparr>)
      else Inl Blocked)"
| "main_at M_destroy c r = Inr (Destroy, c\<lparr>orch := (orch c)\<lparr>m_pc := M_return\<rparr>\<rparr>)"
| "main_at M_return c r = Inr (Exit_success, c\<lparr>orch := (orch c)\<lparr>m_pc := M_done\<rparr>\<rparr>)"
| "main_at M_done c r = Inl Exited"

subsection \<open>Runs\<close>

text \<open>One step of the process \<open>p\<close>; the client and the worker \<open>i\<close> are the children of the turn \<open>i\<close> of their \<^verbatim>\<open>fork\<close> loop.\<close>

fun step :: "config \<Rightarrow> pid \<Rightarrow> nat \<Rightarrow> fault + (action \<times> config)" where
  "step c P_main r = main_at (m_pc (orch c)) c r"
| "step c (P_client i) r =
     (if i < length (clients c)
      then (case process_client (mem c) (clients c ! i) r of
              Inl f \<Rightarrow> Inl f
            | Inr (act, m', x) \<Rightarrow> Inr (act, c\<lparr>mem := m', clients := (clients c)[i := x]\<rparr>))
      else Inl No_process)"
| "step c (P_worker i) r =
     (if i < length (workers c)
      then (case process_worker (mem c) (workers c ! i) r of
              Inl f \<Rightarrow> Inl f
            | Inr (act, m', x) \<Rightarrow> Inr (act, c\<lparr>mem := m', workers := (workers c)[i := x]\<rparr>))
      else Inl No_process)"

text \<open>A run under a schedule: the trace of the actions, each with its process, and the last state.\<close>

fun run :: "config \<Rightarrow> (pid \<times> nat) list \<Rightarrow> fault + ((pid \<times> action) list \<times> config)" where
  "run c [] = Inr ([], c)"
| "run c ((p, r) # sched) =
     (case step c p r of
        Inl f \<Rightarrow> Inl f
      | Inr (act, c') \<Rightarrow>
          (case run c' sched of
             Inl f \<Rightarrow> Inl f
           | Inr (tr, c'') \<Rightarrow> Inr ((p, act) # tr, c'')))"

text \<open>The shared block as a successful \<^verbatim>\<open>SharedMemory_init\<close> returns it, and the state of \<^verbatim>\<open>main\<close> at line 464.\<close>

definition shared_initial :: SharedMemory where
  "shared_initial = zeroed\<lparr>post_open := True, output_sem := 1, mutex := 1\<rparr>"

definition initial :: "args \<Rightarrow> config" where
  "initial a =
     \<lparr>mem = shared_initial,
      orch = fork_clients_next \<lparr>m_args = a, m_pc = M_fork_clients, m_i = 0, m_tmp = 0\<rparr>,
      clients = [], workers = []\<rparr>"

text \<open>The actions of one process in a trace, in their order.\<close>

definition actions_of :: "pid \<Rightarrow> (pid \<times> action) list \<Rightarrow> action list" where
  "actions_of p tr = map snd (filter (\<lambda>x. fst x = p) tr)"

subsection \<open>Inputs used below\<close>

text \<open>An operating system on which every call succeeds.\<close>

definition os_ok :: os where
  "os_ok = \<lparr>mmap_ok = True, fopen_ok = True, sem_init_ok = (\<lambda>s. True),
     sem_destroy_ok = (\<lambda>s. True), munmap_ok = True\<rparr>"

text \<open>\<^verbatim>\<open>./proj2 2 1 0 0 0\<close>, and \<^verbatim>\<open>./proj2 1 1 "" 0 0\<close> with an empty third argument.\<close>

definition argv_2_1 :: "string list" where
  "argv_2_1 = [''proj2'', ''2'', ''1'', ''0'', ''0'', ''0'']"

definition argv_empty :: "string list" where
  "argv_empty = [''proj2'', ''1'', ''1'', [], ''0'', ''0'']"

definition args_1_1 :: args where
  "args_1_1 = \<lparr>NZ = 1, NU = 1, TZ = 0, TU = 0, F = 0\<rparr>"

definition args_2_1 :: args where
  "args_2_1 = \<lparr>NZ = 2, NU = 1, TZ = 0, TU = 0, F = 0\<rparr>"

text \<open>A system on which \<^verbatim>\<open>fopen\<close> fails, and one on which \<^verbatim>\<open>sem_init\<close> fails for \<^verbatim>\<open>leaving\<close>.\<close>

definition os_no_file :: os where
  "os_no_file = \<lparr>mmap_ok = True, fopen_ok = False, sem_init_ok = (\<lambda>s. True),
     sem_destroy_ok = (\<lambda>s. True), munmap_ok = True\<rparr>"

definition os_no_sem :: os where
  "os_no_sem = \<lparr>mmap_ok = True, fopen_ok = True, sem_init_ok = (\<lambda>s. s \<noteq> S_leaving),
     sem_destroy_ok = (\<lambda>s. True), munmap_ok = True\<rparr>"

text \<open>Everything a successful \<^verbatim>\<open>SharedMemory_init\<close> holds.\<close>

definition all_resources :: "resource list" where
  "all_resources = [R_mapping, R_file] @ map R_sem sem_order"

text \<open>The value \<^verbatim>\<open>parse_int_arg\<close> gives for an argument it accepts.\<close>

definition arg_value :: "string \<Rightarrow> int" where
  "arg_value arg = int_of_long (fst (strtol arg))"

text \<open>\<^verbatim>\<open>./proj2 1 1 7x 0 0\<close>.\<close>

definition argv_trailing :: "string list" where
  "argv_trailing = [''proj2'', ''1'', ''1'', ''7x'', ''0'', ''0'']"

text \<open>How many clients and workers a run has forked.\<close>

definition forked :: "fault + ((pid \<times> action) list \<times> config) \<Rightarrow> (nat \<times> nat) option" where
  "forked res = (case res of Inl f \<Rightarrow> None | Inr (tr, c) \<Rightarrow> Some (length (clients c), length (workers c)))"

text \<open>
  What a run leaves: the output file, the actions of one process, the last state.
  A run that cannot be taken leaves nothing.
\<close>

definition log_of :: "fault + ((pid \<times> action) list \<times> config) \<Rightarrow> (nat \<times> line) list" where
  "log_of res = (case res of Inl f \<Rightarrow> [] | Inr (tr, c) \<Rightarrow> file_out (mem c))"

definition trace_of :: "pid \<Rightarrow> fault + ((pid \<times> action) list \<times> config) \<Rightarrow> action list" where
  "trace_of p res = (case res of Inl f \<Rightarrow> [] | Inr (tr, c) \<Rightarrow> actions_of p tr)"

definition final :: "fault + ((pid \<times> action) list \<times> config) \<Rightarrow> config option" where
  "final res = (case res of Inl f \<Rightarrow> None | Inr (tr, c) \<Rightarrow> Some c)"

text \<open>
  One client, one worker. The worker starts, finds no client and the office open and
  logs its break (15 steps); the client starts, reads the office open twice, joins
  queue 1 and logs it (19 steps); the orchestrator sleeps and closes the office; the
  worker reads the office closed at line 386 and posts \<^verbatim>\<open>leaving\<close>; the orchestrator
  takes the post and logs the closing (6 steps); the worker ends its break, finds the
  client, and serves it (21 steps).
\<close>

definition sched_late_service :: "(pid \<times> nat) list" where
  "sched_late_service =
     replicate 2 (P_main, 0) @ replicate 15 (P_worker 0, 0) @ replicate 19 (P_client 0, 0)
     @ replicate 2 (P_main, 0) @ replicate 2 (P_worker 0, 0) @ replicate 6 (P_main, 0)
     @ replicate 21 (P_worker 0, 0)"

text \<open>
  Two clients, one worker. Both clients start, choose service 1 and read the office
  open twice (11 steps each, up to line 296); the orchestrator sleeps and closes; the
  worker starts, finds no client and the office closed, checks the queues again and
  posts \<^verbatim>\<open>leaving\<close> (13 steps, up to line 412); both clients join queue 1 and log it
  (8 steps each); the worker runs the loop of lines 412-416 (4 steps); the orchestrator
  logs the closing and dismisses the worker (7 steps); the worker goes home (7 steps);
  the first client takes the one post and goes home (13 steps).
\<close>

definition sched_stranded :: "(pid \<times> nat) list" where
  "sched_stranded =
     replicate 3 (P_main, 0) @ replicate 11 (P_client 0, 0) @ replicate 11 (P_client 1, 0)
     @ replicate 2 (P_main, 0) @ replicate 13 (P_worker 0, 0)
     @ replicate 8 (P_client 0, 0) @ replicate 8 (P_client 1, 0)
     @ replicate 4 (P_worker 0, 0) @ replicate 7 (P_main, 0) @ replicate 7 (P_worker 0, 0)
     @ replicate 13 (P_client 0, 0)"


subsection \<open>Invariants of the runs\<close>

text \<open>
  The posts of one worker on \<^verbatim>\<open>leaving\<close> in a trace; the program points of
  \<^verbatim>\<open>process_worker\<close> after the post of line 408, and those where \<^verbatim>\<open>is_leaving\<close> is
  still unset (the break branch up to its post, and line 408 itself); and what relates
  the number \<open>n\<close> of the posts of a worker to its state.
\<close>

definition signals :: "nat \<Rightarrow> (pid \<times> action) list \<Rightarrow> nat" where
  "signals j tr = length (filter (\<lambda>a. a = Sem_post S_leaving) (actions_of (P_worker j) tr))"

fun after_post :: "worker_pc \<Rightarrow> bool" where
  "after_post W_release = True"
| "after_post W_release_post = True"
| "after_post W_wait_closed = True"
| "after_post (W_log WA_FINISHED ph) = True"
| "after_post W_exit = True"
| "after_post W_done = True"
| "after_post pc = False"

fun before_post :: "worker_pc \<Rightarrow> bool" where
  "before_post W_ensure_open = True"
| "before_post (W_log WA_BREAK_START ph) = True"
| "before_post W_break_closed = True"
| "before_post W_post_leaving_break = True"
| "before_post W_post_leaving = True"
| "before_post pc = False"

definition leaving_inv :: "SharedMemory \<Rightarrow> nat \<Rightarrow> worker \<Rightarrow> bool" where
  "leaving_inv m n w =
     (n = (if is_leaving w \<or> after_post (w_pc w) then 1 else 0)
    \<and> (is_leaving w \<or> w_pc w = W_post_leaving_break \<longrightarrow> \<not> post_open m)
    \<and> (before_post (w_pc w) \<longrightarrow> \<not> is_leaving w)
    \<and> (w_pc w = W_unlock \<and> w_post_open w \<longrightarrow> \<not> is_leaving w))"

definition leaving_inv_all :: "(pid \<times> action) list \<Rightarrow> config \<Rightarrow> bool" where
  "leaving_inv_all tr c =
     ((\<forall>j<length (workers c). leaving_inv (mem c) (signals j tr) (workers c ! j))
    \<and> (\<forall>j\<ge>length (workers c). signals j tr = 0))"










text \<open>
  The barrier of lines 497-499: the posts on \<^verbatim>\<open>leaving\<close> and the waits taken from it in a
  trace, the program points of \<^verbatim>\<open>main\<close> after its last wait, and what relates them.
\<close>

definition posted :: "(pid \<times> action) list \<Rightarrow> nat" where
  "posted tr = length (filter (\<lambda>x. snd x = Sem_post S_leaving) tr)"

definition taken :: "(pid \<times> action) list \<Rightarrow> nat" where
  "taken tr = length (filter (\<lambda>x. snd x = Sem_wait S_leaving) tr)"

fun past_barrier :: "main_pc \<Rightarrow> bool" where
  "past_barrier M_fork_clients = False"
| "past_barrier M_fork_workers = False"
| "past_barrier M_sleep = False"
| "past_barrier M_close = False"
| "past_barrier M_wait_leaving = False"
| "past_barrier pc = True"

definition barrier_inv :: "args \<Rightarrow> (pid \<times> action) list \<Rightarrow> config \<Rightarrow> bool" where
  "barrier_inv a tr c =
     (m_args (orch c) = a
    \<and> 0 \<le> leaving (mem c) \<and> leaving (mem c) + int (taken tr) \<le> int (posted tr)
    \<and> posted tr = (\<Sum>j<length (workers c). signals j tr)
    \<and> taken tr = (if m_pc (orch c) = M_wait_leaving then nat (m_i (orch c))
                   else if past_barrier (m_pc (orch c)) then nat (NU a) else 0)
    \<and> (m_pc (orch c) = M_wait_leaving \<longrightarrow> 0 \<le> m_i (orch c) \<and> m_i (orch c) < NU a)
    \<and> length (workers c) = (if m_pc (orch c) = M_fork_clients then 0
                             else if m_pc (orch c) = M_fork_workers then nat (m_i (orch c))
                             else nat (NU a))
    \<and> (m_pc (orch c) = M_fork_workers \<longrightarrow> 0 \<le> m_i (orch c) \<and> m_i (orch c) < NU a)
    \<and> (Closing \<in> snd ` set (file_out (mem c)) \<longrightarrow> past_barrier (m_pc (orch c))))"

text \<open>One client and two workers, and the run in which both workers find the one client.\<close>

definition args_1_2 :: args where
  "args_1_2 = \<lparr>NZ = 1, NU = 2, TZ = 0, TU = 0, F = 0\<rparr>"

text \<open>
  The client joins queue 1 (19 steps); both workers start and take the snapshot of
  lines 339-342 with the client waiting (9 steps each); the first worker serves it
  (6 steps, up to line 364); the second finds its pick empty, scans the three empty
  queues and takes the mutex (6 steps); its next step is line 360.
\<close>

definition sched_race :: "(pid \<times> nat) list" where
  "sched_race =
     replicate 3 (P_main, 0) @ replicate 19 (P_client 0, 0) @ replicate 9 (P_worker 0, 0)
     @ replicate 9 (P_worker 1, 0) @ replicate 6 (P_worker 0, 0) @ replicate 6 (P_worker 1, 0)"

text \<open>
  The run \<open>sched_race\<close>, continued. The first worker enters \<^verbatim>\<open>log_worker\<close> for its
  service, reads \<^verbatim>\<open>lines_count\<close> and writes it back incremented (3 steps, up to the
  \<^verbatim>\<open>fprintf\<close>); the second executes lines 360 and 364 with \<^verbatim>\<open>queue = 4\<close> and logs
  its service (7 steps, up to the \<^verbatim>\<open>sem_post\<close> of line 255); the first prints its
  line.
\<close>

definition sched_unlocked :: "(pid \<times> nat) list" where
  "sched_unlocked =
     sched_race @ replicate 3 (P_worker 0, 0) @ replicate 7 (P_worker 1, 0) @ [(P_worker 0, 0)]"



text \<open>The states a run goes through, the first one included, up to a step that cannot be taken.\<close>

fun states :: "config \<Rightarrow> (pid \<times> nat) list \<Rightarrow> config list" where
  "states c [] = [c]"
| "states c ((p, r) # sched) =
     c # (case step c p r of Inl f \<Rightarrow> [] | Inr (act, c') \<Rightarrow> states c' sched)"



definition ends_with :: "'a list \<Rightarrow> 'a list \<Rightarrow> bool" where
  "ends_with xs ys = (length ys \<le> length xs \<and> drop (length xs - length ys) xs = ys)"





text \<open>
  The indices a process holds where it uses them: the service of a client once it has
  chosen one, the index of a worker in the lines 353-364, and the index of its loops of
  lines 400 and 412-416.
\<close>

fun client_index :: "client_pc \<Rightarrow> nat \<Rightarrow> bool" where
  "client_index (C_log CA_STARTED ph) s = True"
| "client_index C_arrive s = True"
| "client_index C_select s = True"
| "client_index pc s = (s \<in> {1, 2, 3})"

fun worker_index :: "worker_pc \<Rightarrow> nat \<Rightarrow> nat \<Rightarrow> bool" where
  "worker_index W_test_pick q i = (q \<in> {1, 2, 3})"
| "worker_index W_scan q i = (q \<in> {1, 2, 3})"
| "worker_index W_lock_dec q i = (q \<in> {1, 2, 3, 4})"
| "worker_index W_dec q i = (q \<in> {1, 2, 3, 4})"
| "worker_index W_unlock_dec q i = (q \<in> {1, 2, 3, 4})"
| "worker_index W_call q i = (q \<in> {1, 2, 3, 4})"
| "worker_index W_recheck q i = (i < 3)"
| "worker_index W_release q i = (i < 3)"
| "worker_index W_release_post q i = (i < 3)"
| "worker_index pc q i = True"

definition index_inv :: "config \<Rightarrow> bool" where
  "index_inv c =
     (list_all (\<lambda>x. client_index (c_pc x) (service x)) (clients c)
    \<and> list_all (\<lambda>w. worker_index (w_pc w) (w_queue w) (w_i w)) (workers c))"

text \<open>
  Where a process is inside one of the log functions, with the value it read for
  \<^verbatim>\<open>++memory->lines_count\<close>; \<open>None\<close> elsewhere and for a process not forked yet. A
  process holds the output semaphore from the return of its \<^verbatim>\<open>sem_wait\<close> to its
  \<^verbatim>\<open>sem_post\<close>.
\<close>

definition client_log :: "client \<Rightarrow> (log_phase \<times> nat) option" where
  "client_log x = (case c_pc x of C_log a ph \<Rightarrow> Some (ph, c_tmp x)
                   | C_log_closed ph \<Rightarrow> Some (ph, c_tmp x) | _ \<Rightarrow> None)"

definition worker_log :: "worker \<Rightarrow> (log_phase \<times> nat) option" where
  "worker_log x = (case w_pc x of W_log a ph \<Rightarrow> Some (ph, w_tmp x) | _ \<Rightarrow> None)"

definition main_log :: "orchestrator \<Rightarrow> (log_phase \<times> nat) option" where
  "main_log x = (case m_pc x of M_log ph \<Rightarrow> Some (ph, m_tmp x) | _ \<Rightarrow> None)"

fun status :: "config \<Rightarrow> pid \<Rightarrow> (log_phase \<times> nat) option" where
  "status c P_main = main_log (orch c)"
| "status c (P_client i) = (if i < length (clients c) then client_log (clients c ! i) else None)"
| "status c (P_worker i) = (if i < length (workers c) then worker_log (workers c ! i) else None)"

fun holds :: "(log_phase \<times> nat) option \<Rightarrow> bool" where
  "holds None = False"
| "holds (Some (ph, t)) = (ph \<noteq> L_wait)"

definition same_log :: "SharedMemory \<Rightarrow> SharedMemory \<Rightarrow> bool" where
  "same_log m m' = (output_sem m' = output_sem m \<and> lines_count m' = lines_count m
                     \<and> file_out m' = file_out m)"

text \<open>
  What one step of a process does to the output semaphore, the counter and the file,
  when it is not the decrement of \<^verbatim>\<open>queue[3]\<close>; and what holds of them as long as no
  worker has made that decrement.
\<close>

definition log_rel :: "SharedMemory \<Rightarrow> (log_phase \<times> nat) option \<Rightarrow> action
    \<Rightarrow> SharedMemory \<Rightarrow> (log_phase \<times> nat) option \<Rightarrow> bool" where
  "log_rel m s a m' s' =
     ((\<not> holds s \<and> \<not> holds s' \<and> same_log m m' \<and> (\<forall>n l. a \<noteq> Write_line n l))
    \<or> (\<not> holds s \<and> (\<exists>t. s' = Some (L_load, t)) \<and> output_sem m \<noteq> 0
         \<and> output_sem m' = output_sem m - 1 \<and> lines_count m' = lines_count m
         \<and> file_out m' = file_out m \<and> (\<forall>n l. a \<noteq> Write_line n l))
    \<or> ((\<exists>t. s = Some (L_load, t)) \<and> s' = Some (L_store, lines_count m) \<and> same_log m m'
         \<and> (\<forall>n l. a \<noteq> Write_line n l))
    \<or> (\<exists>t. s = Some (L_store, t) \<and> s' = Some (L_print, t) \<and> output_sem m' = output_sem m
         \<and> lines_count m' = t + 1 \<and> file_out m' = file_out m \<and> (\<forall>n l. a \<noteq> Write_line n l))
    \<or> (\<exists>t l. s = Some (L_print, t) \<and> s' = Some (L_post, t) \<and> output_sem m' = output_sem m
         \<and> lines_count m' = lines_count m \<and> file_out m' = file_out m @ [(t + 1, l)]
         \<and> a = Write_line (t + 1) l)
    \<or> ((\<exists>t. s = Some (L_post, t)) \<and> \<not> holds s' \<and> output_sem m' = posted_value (output_sem m)
         \<and> lines_count m' = lines_count m \<and> file_out m' = file_out m
         \<and> (\<forall>n l. a \<noteq> Write_line n l)))"

definition log_inv :: "config \<Rightarrow> bool" where
  "log_inv c =
     ((\<forall>p q. holds (status c p) \<longrightarrow> holds (status c q) \<longrightarrow> p = q)
    \<and> output_sem (mem c) = (if \<exists>p. holds (status c p) then 0 else 1)
    \<and> lines_count (mem c) = length (file_out (mem c))
         + (if \<exists>p t. status c p = Some (L_print, t) then 1 else 0)
    \<and> map fst (file_out (mem c)) = [1..<Suc (length (file_out (mem c)))]
    \<and> (\<forall>p t. status c p = Some (L_store, t) \<or> status c p = Some (L_print, t)
           \<longrightarrow> t = length (file_out (mem c))))"

definition in_bounds :: "(pid \<times> action) list \<Rightarrow> bool" where
  "in_bounds tr = list_all (\<lambda>x. snd x \<noteq> Dec_queue 3) tr"

section \<open>Properties\<close>

subsection \<open>Runs of the orchestrator's fork loops\<close>

lemma run_append:
  "run c (s1 @ s2) =
     (case run c s1 of Inl f \<Rightarrow> Inl f
      | Inr (tr1, c1) \<Rightarrow> (case run c1 s2 of Inl f \<Rightarrow> Inl f | Inr (tr2, c2) \<Rightarrow> Inr (tr1 @ tr2, c2)))"
  by (induction s1 arbitrary: c) (auto split: sum.splits prod.splits)

lemma upt_0_Suc_shift: "[0..<Suc k] = 0 # map Suc [0..<k]"
  by (simp add: upt_conv_Cons map_Suc_upt del: upt_Suc)

lemma fork_clients_loop:
  "m_pc (orch c) = M_fork_clients \<Longrightarrow> m_i (orch c) + int k = NZ (m_args (orch c)) \<Longrightarrow> 0 < k \<Longrightarrow>
   \<exists>tr c'. run c (replicate k (P_main, 0)) = Inr (tr, c')
     \<and> clients c' = clients c @ map (\<lambda>j. new_client (nat (m_i (orch c) + 1 + int j)) (TZ (m_args (orch c)))) [0..<k]
     \<and> workers c' = workers c \<and> mem c' = mem c
     \<and> orch c' = fork_workers_next ((orch c)\<lparr>m_i := 0\<rparr>)
     \<and> map snd tr = map (\<lambda>j. Fork (P_client (length (clients c) + j))) [0..<k]"
proof (induction k arbitrary: c)
  case 0
  then show ?case by simp
next
  case (Suc k)
  let ?c1 = "c\<lparr>clients := clients c @ [new_client (nat (m_i (orch c) + 1)) (TZ (m_args (orch c)))],
                orch := fork_clients_next ((orch c)\<lparr>m_i := m_i (orch c) + 1\<rparr>)\<rparr>"
  have st: "step c P_main 0 = Inr (Fork (P_client (length (clients c))), ?c1)"
    using Suc.prems(1) by simp
  show ?case
  proof (cases "k = 0")
    case True
    with Suc.prems have "fork_clients_next ((orch c)\<lparr>m_i := m_i (orch c) + 1\<rparr>) = fork_workers_next ((orch c)\<lparr>m_i := 0\<rparr>)"
      by (simp add: fork_clients_next_def)
    with True st show ?thesis by simp
  next
    case False
    with Suc.prems have o1: "fork_clients_next ((orch c)\<lparr>m_i := m_i (orch c) + 1\<rparr>) = (orch c)\<lparr>m_i := m_i (orch c) + 1\<rparr>"
      by (simp add: fork_clients_next_def)
    have "\<exists>tr c'. run ?c1 (replicate k (P_main, 0)) = Inr (tr, c')
     \<and> clients c' = clients ?c1 @ map (\<lambda>j. new_client (nat (m_i (orch ?c1) + 1 + int j)) (TZ (m_args (orch ?c1)))) [0..<k]
     \<and> workers c' = workers ?c1 \<and> mem c' = mem ?c1
     \<and> orch c' = fork_workers_next ((orch ?c1)\<lparr>m_i := 0\<rparr>)
     \<and> map snd tr = map (\<lambda>j. Fork (P_client (length (clients ?c1) + j))) [0..<k]"
      using Suc.prems False o1 by (intro Suc.IH) simp_all
    then obtain tr c' where r: "run ?c1 (replicate k (P_main, 0)) = Inr (tr, c')"
      and cl: "clients c' = clients ?c1 @ map (\<lambda>j. new_client (nat (m_i (orch ?c1) + 1 + int j)) (TZ (m_args (orch ?c1)))) [0..<k]"
      and rest: "workers c' = workers ?c1" "mem c' = mem ?c1" "orch c' = fork_workers_next ((orch ?c1)\<lparr>m_i := 0\<rparr>)"
      and tr: "map snd tr = map (\<lambda>j. Fork (P_client (length (clients ?c1) + j))) [0..<k]"
      by blast
    have "run c (replicate (Suc k) (P_main, 0)) = Inr ((P_main, Fork (P_client (length (clients c)))) # tr, c')"
      using st r by simp
    moreover have "clients c' = clients c @ map (\<lambda>j. new_client (nat (m_i (orch c) + 1 + int j)) (TZ (m_args (orch c)))) [0..<Suc k]"
      unfolding upt_0_Suc_shift using cl o1 by (simp add: comp_def add.commute add.left_commute)
    moreover have "map snd ((P_main, Fork (P_client (length (clients c)))) # tr) = map (\<lambda>j. Fork (P_client (length (clients c) + j))) [0..<Suc k]"
      unfolding upt_0_Suc_shift using tr by (simp add: comp_def)
    ultimately show ?thesis using rest o1 by (intro exI conjI) (assumption | simp)+
  qed
qed

lemma fork_workers_loop:
  "m_pc (orch c) = M_fork_workers \<Longrightarrow> m_i (orch c) + int k = NU (m_args (orch c)) \<Longrightarrow> 0 < k \<Longrightarrow>
   \<exists>tr c'. run c (replicate k (P_main, 0)) = Inr (tr, c')
     \<and> workers c' = workers c @ map (\<lambda>j. new_worker (nat (m_i (orch c) + 1 + int j)) (TU (m_args (orch c)))) [0..<k]
     \<and> clients c' = clients c \<and> mem c' = mem c
     \<and> orch c' = (orch c)\<lparr>m_i := NU (m_args (orch c)), m_pc := M_sleep\<rparr>
     \<and> map snd tr = map (\<lambda>j. Fork (P_worker (length (workers c) + j))) [0..<k]"
proof (induction k arbitrary: c)
  case 0
  then show ?case by simp
next
  case (Suc k)
  let ?c1 = "c\<lparr>workers := workers c @ [new_worker (nat (m_i (orch c) + 1)) (TU (m_args (orch c)))],
                orch := fork_workers_next ((orch c)\<lparr>m_i := m_i (orch c) + 1\<rparr>)\<rparr>"
  have st: "step c P_main 0 = Inr (Fork (P_worker (length (workers c))), ?c1)"
    using Suc.prems(1) by simp
  show ?case
  proof (cases "k = 0")
    case True
    with Suc.prems have "fork_workers_next ((orch c)\<lparr>m_i := m_i (orch c) + 1\<rparr>) = (orch c)\<lparr>m_i := NU (m_args (orch c)), m_pc := M_sleep\<rparr>"
      by (simp add: fork_workers_next_def)
    with True st show ?thesis by simp
  next
    case False
    with Suc.prems have o1: "fork_workers_next ((orch c)\<lparr>m_i := m_i (orch c) + 1\<rparr>) = (orch c)\<lparr>m_i := m_i (orch c) + 1\<rparr>"
      by (simp add: fork_workers_next_def)
    have "\<exists>tr c'. run ?c1 (replicate k (P_main, 0)) = Inr (tr, c')
     \<and> workers c' = workers ?c1 @ map (\<lambda>j. new_worker (nat (m_i (orch ?c1) + 1 + int j)) (TU (m_args (orch ?c1)))) [0..<k]
     \<and> clients c' = clients ?c1 \<and> mem c' = mem ?c1
     \<and> orch c' = (orch ?c1)\<lparr>m_i := NU (m_args (orch ?c1)), m_pc := M_sleep\<rparr>
     \<and> map snd tr = map (\<lambda>j. Fork (P_worker (length (workers ?c1) + j))) [0..<k]"
      using Suc.prems False o1 by (intro Suc.IH) simp_all
    then obtain tr c' where r: "run ?c1 (replicate k (P_main, 0)) = Inr (tr, c')"
      and cl: "workers c' = workers ?c1 @ map (\<lambda>j. new_worker (nat (m_i (orch ?c1) + 1 + int j)) (TU (m_args (orch ?c1)))) [0..<k]"
      and rest: "clients c' = clients ?c1" "mem c' = mem ?c1" "orch c' = (orch ?c1)\<lparr>m_i := NU (m_args (orch ?c1)), m_pc := M_sleep\<rparr>"
      and tr: "map snd tr = map (\<lambda>j. Fork (P_worker (length (workers ?c1) + j))) [0..<k]"
      by blast
    have "run c (replicate (Suc k) (P_main, 0)) = Inr ((P_main, Fork (P_worker (length (workers c)))) # tr, c')"
      using st r by simp
    moreover have "workers c' = workers c @ map (\<lambda>j. new_worker (nat (m_i (orch c) + 1 + int j)) (TU (m_args (orch c)))) [0..<Suc k]"
      unfolding upt_0_Suc_shift using cl o1 by (simp add: comp_def add.commute add.left_commute)
    moreover have "map snd ((P_main, Fork (P_worker (length (workers c)))) # tr) = map (\<lambda>j. Fork (P_worker (length (workers c) + j))) [0..<Suc k]"
      unfolding upt_0_Suc_shift using tr by (simp add: comp_def)
    ultimately show ?thesis using rest o1 by (intro exI conjI) (assumption | simp)+
  qed
qed

lemma main_args_Inr:
  "main_args argv = Inr a \<Longrightarrow>
     length argv = 6 \<and> parse_int_arg (argv ! 1) = Inr (NZ a) \<and> parse_int_arg (argv ! 2) = Inr (NU a)
   \<and> parse_int_arg (argv ! 3) = Inr (TZ a) \<and> parse_int_arg (argv ! 4) = Inr (TU a)
   \<and> parse_int_arg (argv ! 5) = Inr (F a)
   \<and> 0 < NZ a \<and> 0 < NU a \<and> check_range (TZ a) 0 10000 \<and> check_range (TU a) 0 100
   \<and> check_range (F a) 0 10000"
  unfolding main_args_def by (auto split: if_splits sum.splits)

lemma random_sleep_bounds:
  "lo \<le> hi \<Longrightarrow> lo \<le> random_sleep r lo hi \<and> random_sleep r lo hi \<le> hi"
  unfolding random_sleep_def RAND_def
  using pos_mod_bound [of "hi - lo + 1" "int r"] pos_mod_sign [of "hi - lo + 1" "int r"] by linarith

lemma forks_of_main:
  assumes "0 < NZ a" "0 < NU a"
  shows "\<exists>tr c. run (initial a) (replicate (nat (NZ a) + nat (NU a)) (P_main, 0)) = Inr (tr, c)
          \<and> clients c = map (\<lambda>j. new_client (Suc j) (TZ a)) [0..<nat (NZ a)]
          \<and> workers c = map (\<lambda>j. new_worker (Suc j) (TU a)) [0..<nat (NU a)]
          \<and> map snd tr = map (\<lambda>j. Fork (P_client j)) [0..<nat (NZ a)] @ map (\<lambda>j. Fork (P_worker j)) [0..<nat (NU a)]
          \<and> mem c = shared_initial \<and> m_pc (orch c) = M_sleep"
proof -
  let ?c0 = "initial a"
  have o0: "orch ?c0 = \<lparr>m_args = a, m_pc = M_fork_clients, m_i = 0, m_tmp = 0\<rparr>"
    using assms by (simp add: initial_def fork_clients_next_def)
  have "\<exists>tr c'. run ?c0 (replicate (nat (NZ a)) (P_main, 0)) = Inr (tr, c')
     \<and> clients c' = clients ?c0 @ map (\<lambda>j. new_client (nat (m_i (orch ?c0) + 1 + int j)) (TZ (m_args (orch ?c0)))) [0..<nat (NZ a)]
     \<and> workers c' = workers ?c0 \<and> mem c' = mem ?c0
     \<and> orch c' = fork_workers_next ((orch ?c0)\<lparr>m_i := 0\<rparr>)
     \<and> map snd tr = map (\<lambda>j. Fork (P_client (length (clients ?c0) + j))) [0..<nat (NZ a)]"
    using assms o0 by (intro fork_clients_loop) simp_all
  then obtain tr1 c1 where r1: "run ?c0 (replicate (nat (NZ a)) (P_main, 0)) = Inr (tr1, c1)"
    and c1: "clients c1 = map (\<lambda>j. new_client (Suc j) (TZ a)) [0..<nat (NZ a)]"
      "workers c1 = []" "mem c1 = shared_initial"
      "orch c1 = \<lparr>m_args = a, m_pc = M_fork_workers, m_i = 0, m_tmp = 0\<rparr>"
    and t1: "map snd tr1 = map (\<lambda>j. Fork (P_client j)) [0..<nat (NZ a)]"
    using assms o0 by (auto simp: initial_def fork_workers_next_def nat_add_distrib Suc_nat_eq_nat_zadd1 add.commute)
  have "\<exists>tr c'. run c1 (replicate (nat (NU a)) (P_main, 0)) = Inr (tr, c')
     \<and> workers c' = workers c1 @ map (\<lambda>j. new_worker (nat (m_i (orch c1) + 1 + int j)) (TU (m_args (orch c1)))) [0..<nat (NU a)]
     \<and> clients c' = clients c1 \<and> mem c' = mem c1
     \<and> orch c' = (orch c1)\<lparr>m_i := NU (m_args (orch c1)), m_pc := M_sleep\<rparr>
     \<and> map snd tr = map (\<lambda>j. Fork (P_worker (length (workers c1) + j))) [0..<nat (NU a)]"
    using assms c1 by (intro fork_workers_loop) simp_all
  then obtain tr2 c2 where r2: "run c1 (replicate (nat (NU a)) (P_main, 0)) = Inr (tr2, c2)"
    and c2: "workers c2 = map (\<lambda>j. new_worker (Suc j) (TU a)) [0..<nat (NU a)]"
      "clients c2 = clients c1" "mem c2 = shared_initial" "m_pc (orch c2) = M_sleep"
    and t2: "map snd tr2 = map (\<lambda>j. Fork (P_worker j)) [0..<nat (NU a)]"
    using assms c1 by (auto simp: nat_add_distrib Suc_nat_eq_nat_zadd1 add.commute)
  have "run ?c0 (replicate (nat (NZ a) + nat (NU a)) (P_main, 0)) = Inr (tr1 @ tr2, c2)"
    using r1 r2 by (simp add: replicate_add run_append)
  then show ?thesis using c1 c2 t1 t2 by (intro exI conjI) (assumption | simp)+
qed


subsection \<open>The arguments of main\<close>

lemma parse_0: "parse_int_arg ''0'' = Inr 0"
  by code_simp

lemma parse_1: "parse_int_arg ''1'' = Inr 1"
  by code_simp

lemma parse_2: "parse_int_arg ''2'' = Inr 2"
  by code_simp

lemma parse_empty: "parse_int_arg [] = Inr 0"
  by code_simp

lemma main_args_2_1: "main_args argv_2_1 = Inr args_2_1"
  by (simp add: main_args_def argv_2_1_def args_2_1_def parse_0 parse_1 parse_2 check_range_def)

text \<open>
  C7, as the code has it: of the five arguments the first is \<open>NZ\<close>, the number of
  client processes \<^verbatim>\<open>main\<close> forks, and the second is \<open>NU\<close>, the number of worker
  processes; then come \<open>TZ\<close> (0..10000), the bound of the sleep of a client before it
  enters, \<open>TU\<close> (0..100), the bound of the break of a worker, and \<open>F\<close> (0..10000), the
  orchestrator sleeping between \<open>F / 2\<close> and \<open>F\<close> before it closes the office. Whenever
  the arguments are accepted, the first \<open>NZ + NU\<close> steps of \<^verbatim>\<open>main\<close> fork the clients
  \<open>1..NZ\<close>, each with \<open>TZ\<close>, and then the workers \<open>1..NU\<close>, each with \<open>TU\<close>.
\<close>

theorem main_argument_order:
  assumes "main_args argv = Inr a"
  shows "parse_int_arg (argv ! 1) = Inr (NZ a) \<and> parse_int_arg (argv ! 2) = Inr (NU a)
     \<and> parse_int_arg (argv ! 3) = Inr (TZ a) \<and> parse_int_arg (argv ! 4) = Inr (TU a)
     \<and> parse_int_arg (argv ! 5) = Inr (F a)
     \<and> check_range (TZ a) 0 10000 \<and> check_range (TU a) 0 100 \<and> check_range (F a) 0 10000
     \<and> (\<exists>tr c. run (initial a) (replicate (nat (NZ a) + nat (NU a)) (P_main, 0)) = Inr (tr, c)
          \<and> clients c = map (\<lambda>j. new_client (Suc j) (TZ a)) [0..<nat (NZ a)]
          \<and> workers c = map (\<lambda>j. new_worker (Suc j) (TU a)) [0..<nat (NU a)]
          \<and> map snd tr = map (\<lambda>j. Fork (P_client j)) [0..<nat (NZ a)]
                          @ map (\<lambda>j. Fork (P_worker j)) [0..<nat (NU a)]
          \<and> m_pc (orch c) = M_sleep)
     \<and> (\<forall>r. 0 \<le> random_sleep r 0 (TZ a) \<and> random_sleep r 0 (TZ a) \<le> TZ a)
     \<and> (\<forall>r. 0 \<le> random_sleep r 0 (TU a) \<and> random_sleep r 0 (TU a) \<le> TU a)
     \<and> (\<forall>r. F a div 2 \<le> random_sleep r (F a div 2) (F a) \<and> random_sleep r (F a div 2) (F a) \<le> F a)"
proof -
  note h = main_args_Inr [OF assms]
  have tz: "0 \<le> TZ a" and tu: "0 \<le> TU a" and f0: "0 \<le> F a"
    using h by (simp_all add: check_range_def)
  have f: "F a div 2 \<le> F a"
    using f0 by arith
  have "\<exists>tr c. run (initial a) (replicate (nat (NZ a) + nat (NU a)) (P_main, 0)) = Inr (tr, c)
          \<and> clients c = map (\<lambda>j. new_client (Suc j) (TZ a)) [0..<nat (NZ a)]
          \<and> workers c = map (\<lambda>j. new_worker (Suc j) (TU a)) [0..<nat (NU a)]
          \<and> map snd tr = map (\<lambda>j. Fork (P_client j)) [0..<nat (NZ a)]
                          @ map (\<lambda>j. Fork (P_worker j)) [0..<nat (NU a)]
          \<and> m_pc (orch c) = M_sleep"
    using forks_of_main [of a] h by blast
  then show ?thesis
    using h random_sleep_bounds [OF tz] random_sleep_bounds [OF tu] random_sleep_bounds [OF f]
    by simp
qed

theorem main_argument_order_witness:
  "main_args argv_2_1 = Inr args_2_1
   \<and> parse_int_arg (argv_2_1 ! 1) = Inr (NZ args_2_1) \<and> parse_int_arg (argv_2_1 ! 2) = Inr (NU args_2_1)
   \<and> (\<exists>tr c. run (initial args_2_1) (replicate 3 (P_main, 0)) = Inr (tr, c)
          \<and> clients c = [new_client (Suc 0) 0, new_client (Suc (Suc 0)) 0]
          \<and> workers c = [new_worker (Suc 0) 0]
          \<and> map snd tr = [Fork (P_client 0), Fork (P_client (Suc 0)), Fork (P_worker 0)])"
proof -
  have e: "[0..<2] = [0, Suc 0]"
    by (simp add: numeral_2_eq_2)
  from main_argument_order [OF main_args_2_1]
  obtain tr c where "run (initial args_2_1) (replicate 3 (P_main, 0)) = Inr (tr, c)"
    "clients c = [new_client (Suc 0) 0, new_client (Suc (Suc 0)) 0]"
    "workers c = [new_worker (Suc 0) 0]"
    "map snd tr = [Fork (P_client 0), Fork (P_client (Suc 0)), Fork (P_worker 0)]"
    by (auto simp: args_2_1_def e)
  moreover have "parse_int_arg (argv_2_1 ! 1) = Inr (NZ args_2_1)" "parse_int_arg (argv_2_1 ! 2) = Inr (NU args_2_1)"
    using main_argument_order [OF main_args_2_1] by simp_all
  ultimately show ?thesis
    using main_args_2_1 by (intro conjI exI) assumption+
qed


text \<open>
  C7 as the specification words it (the first argument is the number of workers, the
  second the number of clients) fails: \<^verbatim>\<open>./proj2 2 1 0 0 0\<close> forks two clients and
  one worker.
\<close>

theorem first_argument_is_client_count:
  "main_args argv_2_1 = Inr args_2_1
   \<and> forked (run (initial args_2_1) (replicate 3 (P_main, 0))) = Some (2, 1)
   \<and> forked (run (initial args_2_1) (replicate 3 (P_main, 0))) \<noteq> Some (1, 2)"
proof -
  have "forked (run (initial args_2_1) (replicate 3 (P_main, 0))) = Some (2, 1)"
    by code_simp
  then show ?thesis using main_args_2_1 by simp
qed


text \<open>
  C8: an invocation with an argument that is no integer must exit with failure before
  the shared state is created. The empty string is no integer, yet \<^verbatim>\<open>strtol\<close> converts
  nothing, leaves \<^verbatim>\<open>temp\<close> at the empty argument, and \<^verbatim>\<open>parse_int_arg\<close> returns 0:
  \<^verbatim>\<open>./proj2 1 1 "" 0 0\<close> is accepted with \<open>TZ = 0\<close> and the shared block is created.
\<close>

theorem empty_argument_accepted:
  "main_start argv_empty os_ok =
     Inr (\<lparr>NZ = 1, NU = 1, TZ = 0, TU = 0, F = 0\<rparr>,
          [R_mapping, R_file, R_sem S_mutex, R_sem S_output, R_sem S_leaving, R_sem S_post_closed,
           R_sem (S_queue 0), R_sem (S_queue 1), R_sem (S_queue 2)],
          shared_initial)"
proof -
  have "main_args argv_empty = Inr \<lparr>NZ = 1, NU = 1, TZ = 0, TU = 0, F = 0\<rparr>"
    by (simp add: main_args_def argv_empty_def parse_0 parse_1 parse_empty check_range_def)
  moreover have "SharedMemory_init os_ok = Inr ([R_mapping, R_file, R_sem S_mutex, R_sem S_output, R_sem S_leaving, R_sem S_post_closed,
           R_sem (S_queue 0), R_sem (S_queue 1), R_sem (S_queue 2)], shared_initial)"
    by (simp add: SharedMemory_init_def os_ok_def Semaphores_init_def sem_order_def sem_put_def
        sem_initial_def zeroed_def shared_initial_def)
  ultimately show ?thesis by (simp add: main_start_def)
qed

subsection \<open>Failures of the system calls\<close>

lemma init_sems_Inr:
  "init_sems ok ss live m = Inr x \<Longrightarrow> list_all ok ss"
  by (induction ok ss live m rule: init_sems.induct) (auto split: if_splits)

text \<open>A successful \<^verbatim>\<open>SharedMemory_init\<close> returns the block the runs start from.\<close>

lemma SharedMemory_init_Inr:
  assumes "SharedMemory_init env = Inr (live, m)"
  shows "m = shared_initial \<and> live = all_resources"
proof -
  from assms have i: "init_sems (sem_init_ok env) sem_order [R_mapping, R_file]
      (zeroed\<lparr>lines_count := 0, post_open := True\<rparr>) = Inr (live, m)"
    by (simp add: SharedMemory_init_def Semaphores_init_def Let_def split: if_splits)
  from init_sems_Inr [OF i] have ok: "sem_init_ok env S_mutex" "sem_init_ok env S_output"
    "sem_init_ok env S_leaving" "sem_init_ok env S_post_closed" "sem_init_ok env (S_queue 0)"
    "sem_init_ok env (S_queue 1)" "sem_init_ok env (S_queue 2)"
    by (simp_all add: sem_order_def)
  from i ok show ?thesis
    by (simp add: sem_order_def sem_put_def sem_initial_def zeroed_def shared_initial_def
        all_resources_def)
qed

text \<open>
  C9: on a failure of a system call the process should tear down what it has
  constructed before it exits. \<^verbatim>\<open>main\<close> does so when \<^verbatim>\<open>fork\<close> fails (lines 468-471,
  479-482): it calls \<^verbatim>\<open>SharedMemory_destroy\<close> and then \<^verbatim>\<open>error\<close>, and exits holding
  nothing. \<^verbatim>\<open>SharedMemory_init\<close> does not: for \<^verbatim>\<open>./proj2 2 1 0 0 0\<close> on a system where
  \<^verbatim>\<open>fopen\<close> fails it calls \<^verbatim>\<open>error\<close> at once and the process exits with the mapping
  still in place; where \<^verbatim>\<open>sem_init\<close> fails for \<^verbatim>\<open>leaving\<close>, it exits with the mapping,
  the open file and the two semaphores initialised before.
\<close>

theorem mapping_left_at_exit:
  "main_start argv_2_1 os_no_file = Inl (Exit_failure ''Failed to open output file'', [R_mapping])
   \<and> main_start argv_2_1 os_no_sem =
       Inl (Exit_failure ''Failed to initialize semaphore'',
            [R_mapping, R_file, R_sem S_mutex, R_sem S_output])
   \<and> main_fork_failed os_ok all_resources = (Exit_failure ''Failed to fork a process'', [])"
proof -
  have "SharedMemory_init os_no_file = Inl (Exit_failure ''Failed to open output file'', [R_mapping])"
    by (simp add: SharedMemory_init_def os_no_file_def error_def)
  moreover have "SharedMemory_init os_no_sem =
       Inl (Exit_failure ''Failed to initialize semaphore'',
            [R_mapping, R_file, R_sem S_mutex, R_sem S_output])"
    by (simp add: SharedMemory_init_def Semaphores_init_def sem_order_def os_no_sem_def error_def)
  moreover have "main_fork_failed os_ok all_resources = (Exit_failure ''Failed to fork a process'', [])"
    by (simp add: main_fork_failed_def SharedMemory_destroy_def Semaphores_destroy_def
        sem_order_def os_ok_def all_resources_def error_def)
  ultimately show ?thesis
    using main_args_2_1 by (simp add: main_start_def)
qed

subsection \<open>Runs that the claims exclude\<close>

lemma Inr_caseD:
  "(case res of Inl f \<Rightarrow> False | Inr (x, y) \<Rightarrow> P x y) \<Longrightarrow> \<exists>x y. res = Inr (x, y) \<and> P x y"
  by (cases res) auto

text \<open>
  C2: no worker should log a service after the closing line. In the run
  \<open>sched_late_service\<close> of \<^verbatim>\<open>./proj2 1 1 0 0 0\<close> the worker posts \<^verbatim>\<open>leaving\<close> from its
  break (line 388) while a client waits in queue 1; the orchestrator's only wait of
  lines 497-499 returns and it logs the closing as line 5; the worker then ends its
  break, finds the client and logs the service as line 7.
\<close>

theorem serving_after_closing:
  "log_of (run (initial args_1_1) sched_late_service) =
     [(1, U_started 1), (2, U_taking_break 1), (3, Z_started 1), (4, Z_entering 1 1),
      (5, Closing), (6, U_break_finished 1), (7, U_serving 1 1)]"
  by code_simp


text \<open>
  C4: the closing branch should post a queue's semaphore often enough for every client
  that waits on it. In the run \<open>sched_stranded\<close> of \<^verbatim>\<open>./proj2 2 1 0 0 0\<close> both clients
  join queue 1 after the worker's check of line 400; the loop of lines 412-416 reads
  \<^verbatim>\<open>queue[0] = 2\<close> and posts \<^verbatim>\<open>queue_sem[0]\<close> once. The first client takes the post;
  at the end the worker has exited, the second client is blocked at line 308 and the
  orchestrator is blocked at line 511, for ever.
\<close>

theorem one_post_for_two_clients:
  "trace_of (P_worker 0) (run (initial args_2_1) sched_stranded) =
     [Sem_wait S_output, Read_lines 2, Write_lines 3, Write_line 3 (U_started 1), Sem_post S_output,
      Sem_wait S_mutex, Read_queues False, Read_open False, Sem_post S_mutex,
      Read_queue 0 0, Read_queue 1 0, Read_queue 2 0, Sem_post S_leaving,
      Read_queue 0 2, Sem_post (S_queue 0), Read_queue 1 0, Read_queue 2 0,
      Sem_wait S_post_closed, Sem_wait S_output, Read_lines 6, Write_lines 7, Write_line 7 (U_going_home 1),
      Sem_post S_output, Exit_success]
   \<and> map_option (\<lambda>c. (queue (mem c), queue_sem (mem c), map c_pc (clients c), map w_pc (workers c),
                      m_pc (orch c), step c (P_client 1) 0, step c P_main 0))
        (final (run (initial args_2_1) sched_stranded)) =
      Some ([2, 0, 0], [0, 0, 0], [C_done, C_wait_call], [W_done], M_wait_children,
            Inl Blocked, Inl Blocked)"
  by code_simp




subsection \<open>Invariants by induction on the schedule\<close>

lemma run_invariant:
  assumes st: "\<And>tr c p r a c'. I tr c \<Longrightarrow> step c p r = Inr (a, c') \<Longrightarrow> I (tr @ [(p, a)]) c'"
  shows "I tr0 c0 \<Longrightarrow> run c0 sched = Inr (tr, c) \<Longrightarrow> I (tr0 @ tr) c"
proof (induction sched arbitrary: c0 tr0 tr)
  case Nil
  then show ?case by simp
next
  case (Cons x sched)
  obtain p r where x: "x = (p, r)" by (cases x)
  from Cons.prems(2) x obtain a c1 tr1 where s: "step c0 p r = Inr (a, c1)"
    and r: "run c1 sched = Inr (tr1, c)" and t: "tr = (p, a) # tr1"
    by (auto split: sum.splits prod.splits)
  have "I (tr0 @ [(p, a)]) c1" using st [OF Cons.prems(1) s] .
  from Cons.IH [OF this r] show ?case using t by simp
qed

lemma log_step_wait:
  "log_step l L_wait m t = Inr (a, m', t', nxt) \<longleftrightarrow>
     (output_sem m \<noteq> 0 \<and> a = Sem_wait S_output \<and> m' = m\<lparr>output_sem := output_sem m - 1\<rparr>
      \<and> t' = t \<and> nxt = Some L_load)"
  by (auto simp: sem_wait_def sem_get_def sem_put_def)

lemma log_step_load:
  "log_step l L_load m t = Inr (a, m', t', nxt) \<longleftrightarrow>
     (a = Read_lines (lines_count m) \<and> m' = m \<and> t' = lines_count m \<and> nxt = Some L_store)"
  by auto

lemma log_step_store:
  "log_step l L_store m t = Inr (a, m', t', nxt) \<longleftrightarrow>
     (a = Write_lines (t + 1) \<and> m' = m\<lparr>lines_count := t + 1\<rparr> \<and> t' = t \<and> nxt = Some L_print)"
  by auto

lemma log_step_print:
  "log_step l L_print m t = Inr (a, m', t', nxt) \<longleftrightarrow>
     (a = Write_line (t + 1) l
      \<and> m' = m\<lparr>file_out := file_out m @ [(t + 1, l)]\<rparr> \<and> t' = t \<and> nxt = Some L_post)"
  by auto

lemma log_step_post:
  "log_step l L_post m t = Inr (a, m', t', nxt) \<longleftrightarrow>
     (a = Sem_post S_output
      \<and> m' = m\<lparr>output_sem := posted_value (output_sem m)\<rparr> \<and> t' = t \<and> nxt = None)"
  by (auto simp: sem_post_def sem_get_def sem_put_def)

lemmas log_step_iff = log_step_wait log_step_load log_step_store log_step_print log_step_post

subsection \<open>The posts on leaving\<close>

lemma sem_open [simp]:
  "post_open (sem_put s v m) = post_open m"
  by (cases s) (simp_all add: sem_put_def)

lemma worker_keeps_open:
  assumes "process_worker m w r = Inr (a, m', w')"
  shows "post_open m' = post_open m"
proof (cases "w_pc w")
  case (W_log act ph)
  with assms show ?thesis
    by (cases ph) (auto simp: process_worker_def sem_wait_def sem_post_def split: if_splits sum.splits)
qed (use assms in \<open>auto simp: process_worker_def sem_wait_def sem_post_def split: if_splits\<close>)

lemma client_keeps_open:
  assumes "process_client m x r = Inr (a, m', x')"
  shows "post_open m' = post_open m"
proof (cases "c_pc x")
  case (C_log act ph)
  with assms show ?thesis
    by (cases ph) (auto simp: process_client_def sem_wait_def sem_post_def split: if_splits sum.splits)
next
  case (C_log_closed ph)
  with assms show ?thesis
    by (cases ph) (auto simp: process_client_def sem_wait_def sem_post_def split: if_splits sum.splits)
qed (use assms in \<open>auto simp: process_client_def sem_wait_def sem_post_def split: if_splits\<close>)

lemma main_closes_only:
  assumes "main_at (m_pc (orch c)) c r = Inr (a, c')"
  shows "post_open (mem c') \<longrightarrow> post_open (mem c)"
proof (cases "m_pc (orch c)")
  case (M_log ph)
  with assms show ?thesis
    by (cases ph) (auto simp: sem_wait_def sem_post_def split: if_splits sum.splits)
qed (use assms in \<open>auto simp: sem_wait_def sem_post_def split: if_splits\<close>)

lemma worker_leaving_step:
  assumes inv: "leaving_inv m n w" and st: "process_worker m w r = Inr (a, m', w')"
  shows "leaving_inv m' (n + (if a = Sem_post S_leaving then 1 else 0)) w'"
proof (cases "w_pc w")
  case (W_log act ph)
  from st W_log obtain t' nxt where
    l: "log_step (log_worker (w_id w) (if act = WA_SERVING_START \<or> act = WA_SERVING_END then w_queue w else 0) act)
          ph m (w_tmp w) = Inr (a, m', t', nxt)"
    and x': "w' = w\<lparr>w_tmp := t', w_pc := (case nxt of Some ph' \<Rightarrow> W_log act ph' | None \<Rightarrow> worker_after_log act)\<rparr>"
    by (auto simp: process_worker_def split: sum.splits)
  have o: "post_open m' = post_open m" using worker_keeps_open [OF st] .
  show ?thesis
  proof (cases ph)
    case L_wait
    with l x' inv W_log o show ?thesis
      unfolding L_wait log_step_iff by (cases act) (auto simp: leaving_inv_def)
  next
    case L_load
    with l x' inv W_log o show ?thesis
      unfolding L_load log_step_iff by (cases act) (auto simp: leaving_inv_def)
  next
    case L_store
    with l x' inv W_log o show ?thesis
      unfolding L_store log_step_iff by (cases act) (auto simp: leaving_inv_def)
  next
    case L_print
    with l x' inv W_log o show ?thesis
      unfolding L_print log_step_iff by (cases act) (auto simp: leaving_inv_def)
  next
    case L_post
    with l x' inv W_log o show ?thesis
      unfolding L_post log_step_iff by (cases act) (auto simp: leaving_inv_def)
  qed
qed (use assms in \<open>auto simp: process_worker_def leaving_inv_def sem_wait_def sem_post_def
      worker_branch_def release_next_def split: if_splits\<close>)

lemma signals_snoc:
  "signals j (tr @ [(p, a)]) = signals j tr + (if p = P_worker j \<and> a = Sem_post S_leaving then 1 else 0)"
  by (simp add: signals_def actions_of_def)

lemma leaving_inv_mono:
  "leaving_inv m n w \<Longrightarrow> (post_open m' \<longrightarrow> post_open m) \<Longrightarrow> leaving_inv m' n w"
  by (auto simp: leaving_inv_def)

lemma leaving_inv_new: "leaving_inv m 0 (new_worker i t)"
  by (simp add: leaving_inv_def new_worker_def)

lemma main_never_posts_leaving:
  assumes "main_at (m_pc (orch c)) c r = Inr (a, c')"
  shows "a \<noteq> Sem_post S_leaving"
proof (cases "m_pc (orch c)")
  case (M_log ph)
  with assms show ?thesis
    by (cases ph) (auto simp: sem_wait_def sem_post_def split: if_splits sum.splits)
qed (use assms in \<open>auto simp: sem_wait_def sem_post_def split: if_splits\<close>)

lemma main_workers:
  assumes "main_at (m_pc (orch c)) c r = Inr (a, c')"
  shows "workers c' = workers c \<or> (\<exists>i t. workers c' = workers c @ [new_worker i t])"
proof (cases "m_pc (orch c)")
  case (M_log ph)
  with assms show ?thesis by (auto split: sum.splits)
next
  case M_fork_workers
  with assms have "workers c' = workers c @ [new_worker (nat (m_i (orch c) + 1)) (TU (m_args (orch c)))]"
    by (auto split: if_splits)
  then show ?thesis by blast
qed (use assms in \<open>auto simp: sem_wait_def sem_post_def split: if_splits\<close>)

lemma leaving_inv_all_step:
  assumes inv: "leaving_inv_all tr c" and st: "step c p r = Inr (a, c')"
  shows "leaving_inv_all (tr @ [(p, a)]) c'"
proof (cases p)
  case P_main
  with st have m: "main_at (m_pc (orch c)) c r = Inr (a, c')" by simp
  have sg: "\<And>j. signals j (tr @ [(p, a)]) = signals j tr"
    using P_main by (simp add: signals_snoc)
  note op = main_closes_only [OF m]
  from main_workers [OF m] show ?thesis
  proof
    assume "workers c' = workers c"
    then show ?thesis
      using inv op unfolding leaving_inv_all_def sg
      by (auto intro: leaving_inv_mono)
  next
    assume "\<exists>i t. workers c' = workers c @ [new_worker i t]"
    then obtain i t where w: "workers c' = workers c @ [new_worker i t]" by blast
    show ?thesis
      unfolding leaving_inv_all_def sg
    proof (intro conjI allI impI)
      fix j assume j: "j < length (workers c')"
      show "leaving_inv (mem c') (signals j tr) (workers c' ! j)"
      proof (cases "j < length (workers c)")
        case True
        then show ?thesis
          using inv op w unfolding leaving_inv_all_def
          by (auto simp: nth_append intro: leaving_inv_mono)
      next
        case False
        with j w have e: "j = length (workers c)" by simp
        with inv have "signals j tr = 0" unfolding leaving_inv_all_def by simp
        then show ?thesis using e w by (simp add: leaving_inv_new)
      qed
    next
      fix j assume "length (workers c') \<le> j"
      then show "signals j tr = 0"
        using inv w unfolding leaving_inv_all_def by simp
    qed
  qed
next
  case (P_client i)
  with st obtain m' x' where i: "i < length (clients c)"
    and s: "process_client (mem c) (clients c ! i) r = Inr (a, m', x')"
    and c': "c' = c\<lparr>mem := m', clients := (clients c)[i := x']\<rparr>"
    by (auto split: if_splits sum.splits)
  have sg: "\<And>j. signals j (tr @ [(p, a)]) = signals j tr"
    using P_client by (simp add: signals_snoc)
  have op: "post_open m' = post_open (mem c)" using client_keeps_open [OF s] .
  show ?thesis
    using inv op c' unfolding leaving_inv_all_def sg
    by (auto intro: leaving_inv_mono)
next
  case (P_worker i)
  with st obtain m' x' where i: "i < length (workers c)"
    and s: "process_worker (mem c) (workers c ! i) r = Inr (a, m', x')"
    and c': "c' = c\<lparr>mem := m', workers := (workers c)[i := x']\<rparr>"
    by (auto split: if_splits sum.splits)
  have op: "post_open m' = post_open (mem c)" using worker_keeps_open [OF s] .
  show ?thesis
    unfolding leaving_inv_all_def
  proof (intro conjI allI impI)
    fix j assume j: "j < length (workers c')"
    show "leaving_inv (mem c') (signals j (tr @ [(p, a)])) (workers c' ! j)"
    proof (cases "j = i")
      case True
      have "leaving_inv (mem c) (signals i tr) (workers c ! i)"
        using inv i unfolding leaving_inv_all_def by simp
      from worker_leaving_step [OF this s] show ?thesis
        using True P_worker c' i by (simp add: signals_snoc)
    next
      case False
      have "leaving_inv (mem c) (signals j tr) (workers c ! j)"
        using inv j c' unfolding leaving_inv_all_def by simp
      then show ?thesis
        using False P_worker c' op by (auto simp: signals_snoc intro: leaving_inv_mono)
    qed
  next
    fix j assume "length (workers c') \<le> j"
    then show "signals j (tr @ [(p, a)]) = 0"
      using inv c' i P_worker unfolding leaving_inv_all_def by (auto simp: signals_snoc)
  qed
qed

lemma leaving_inv_all_initial: "leaving_inv_all [] (initial a)"
  by (simp add: leaving_inv_all_def initial_def signals_def actions_of_def)



subsection \<open>The ways of a client\<close>








lemma take_full: "xs = take (length xs) xs"
  by simp






subsection \<open>The barrier before the closing line\<close>

lemma posted_snoc: "posted (tr @ [(p, a)]) = posted tr + (if a = Sem_post S_leaving then 1 else 0)"
  by (simp add: posted_def)

lemma taken_snoc: "taken (tr @ [(p, a)]) = taken tr + (if a = Sem_wait S_leaving then 1 else 0)"
  by (simp add: taken_def)

lemma sum_indicator: "(\<Sum>j<(n::nat). if i = j then (1::nat) else 0) = (if i < n then 1 else 0)"
  by (induction n) auto

lemma sum_signals_snoc:
  "(\<Sum>j<n. signals j (tr @ [(p, a)])) =
     (\<Sum>j<n. signals j tr) + (if a = Sem_post S_leaving \<and> (\<exists>j<n. p = P_worker j) then 1 else 0)"
proof (cases "a = Sem_post S_leaving")
  case False
  then show ?thesis by (simp add: signals_snoc)
next
  case True
  show ?thesis
  proof (cases p)
    case (P_worker i)
    have "(\<Sum>j<n. signals j (tr @ [(p, a)])) = (\<Sum>j<n. signals j tr + (if i = j then 1 else 0))"
      using True P_worker by (simp add: signals_snoc)
    also have "\<dots> = (\<Sum>j<n. signals j tr) + (\<Sum>j<n. if i = j then 1 else 0)"
      by (simp add: sum.distrib)
    finally show ?thesis using True P_worker by (simp add: sum_indicator)
  qed (simp_all add: signals_snoc)
qed

lemma sem_leaving [simp]:
  "leaving (sem_put s v m) = (if s = S_leaving then v else leaving m)"
  by (cases s) (simp_all add: sem_put_def)

lemma sem_file [simp]:
  "file_out (sem_put s v m) = file_out m"
  by (cases s) (simp_all add: sem_put_def)

lemma posted_value_bounds:
  assumes "0 \<le> v"
  shows "posted_value v \<le> v + 1" and "0 \<le> posted_value v"
proof -
  have "(v + 1) mod 2 ^ 32 \<le> v + 1"
    using assms by (intro zmod_le_nonneg_dividend) simp
  then show "posted_value v \<le> v + 1" by (simp add: posted_value_def)
  show "0 \<le> posted_value v" using assms by (simp add: posted_value_def)
qed

lemma log_step_leaving:
  assumes "log_step l ph m t = Inr (a, m', t', nxt)"
  shows "leaving m' = leaving m \<and> a \<noteq> Sem_post S_leaving \<and> a \<noteq> Sem_wait S_leaving
       \<and> (file_out m' = file_out m \<or> (\<exists>n. file_out m' = file_out m @ [(n, l)]))"
proof (cases ph)
  case L_wait
  from assms show ?thesis unfolding L_wait log_step_iff by simp
next
  case L_load
  from assms show ?thesis unfolding L_load log_step_iff by simp
next
  case L_store
  from assms show ?thesis unfolding L_store log_step_iff by simp
next
  case L_print
  from assms show ?thesis unfolding L_print log_step_iff by simp
next
  case L_post
  from assms show ?thesis unfolding L_post log_step_iff by simp
qed

lemma log_client_not_closing [simp]: "log_client i s act \<noteq> Closing"
  by (cases act) simp_all

lemma log_worker_not_closing [simp]: "log_worker i s act \<noteq> Closing"
  by (cases act) simp_all

lemma client_barrier_step:
  assumes "process_client m x r = Inr (a, m', x')"
  shows "leaving m' = leaving m \<and> a \<noteq> Sem_post S_leaving \<and> a \<noteq> Sem_wait S_leaving
       \<and> (file_out m' = file_out m \<or> (\<exists>n l. l \<noteq> Closing \<and> file_out m' = file_out m @ [(n, l)]))"
proof (cases "c_pc x")
  case (C_log act ph)
  from assms C_log obtain t' nxt where
    l: "log_step (log_client (c_id x) (if act = CA_STARTED then 0 else service x) act) ph m (c_tmp x) = Inr (a, m', t', nxt)"
    by (auto simp: process_client_def split: sum.splits)
  from log_step_leaving [OF l] show ?thesis using log_client_not_closing by blast
next
  case (C_log_closed ph)
  from assms C_log_closed obtain t' nxt where
    l: "log_step (log_client (c_id x) (service x) CA_FINISHED) ph m (c_tmp x) = Inr (a, m', t', nxt)"
    by (auto simp: process_client_def split: sum.splits)
  from log_step_leaving [OF l] show ?thesis using log_client_not_closing by blast
qed (use assms in \<open>auto simp: process_client_def sem_wait_def sem_post_def split: if_splits\<close>)

lemma worker_barrier_step:
  assumes "process_worker m x r = Inr (a, m', x')"
  shows "(leaving m' = leaving m \<and> a \<noteq> Sem_post S_leaving
          \<or> leaving m' = posted_value (leaving m) \<and> a = Sem_post S_leaving)
       \<and> a \<noteq> Sem_wait S_leaving
       \<and> (file_out m' = file_out m \<or> (\<exists>n l. l \<noteq> Closing \<and> file_out m' = file_out m @ [(n, l)]))"
proof (cases "w_pc x")
  case (W_log act ph)
  from assms W_log obtain t' nxt where
    l: "log_step (log_worker (w_id x) (if act = WA_SERVING_START \<or> act = WA_SERVING_END then w_queue x else 0) act)
          ph m (w_tmp x) = Inr (a, m', t', nxt)"
    by (auto simp: process_worker_def split: sum.splits)
  from log_step_leaving [OF l] show ?thesis using log_worker_not_closing by auto
qed (use assms in \<open>auto simp: process_worker_def sem_wait_def sem_post_def sem_get_def split: if_splits\<close>)

lemma barrier_inv_frame:
  assumes inv: "barrier_inv a0 tr c" and o: "orch c' = orch c"
    and w: "length (workers c') = length (workers c)"
    and l: "leaving (mem c') = leaving (mem c) \<and> a \<noteq> Sem_post S_leaving
          \<or> leaving (mem c') = posted_value (leaving (mem c)) \<and> a = Sem_post S_leaving"
    and nw: "a \<noteq> Sem_wait S_leaving"
    and po: "a = Sem_post S_leaving \<longrightarrow> (\<exists>j<length (workers c). p = P_worker j)"
    and f: "Closing \<in> snd ` set (file_out (mem c')) \<longrightarrow> Closing \<in> snd ` set (file_out (mem c))"
  shows "barrier_inv a0 (tr @ [(p, a)]) c'"
proof -
  from inv have A: "m_args (orch c) = a0"
    and B0: "0 \<le> leaving (mem c)"
    and B: "leaving (mem c) + int (taken tr) \<le> int (posted tr)"
    and C: "posted tr = (\<Sum>j<length (workers c). signals j tr)"
    and D: "taken tr = (if m_pc (orch c) = M_wait_leaving then nat (m_i (orch c))
                   else if past_barrier (m_pc (orch c)) then nat (NU a0) else 0)"
    and E: "m_pc (orch c) = M_wait_leaving \<longrightarrow> 0 \<le> m_i (orch c) \<and> m_i (orch c) < NU a0"
    and G: "length (workers c) = (if m_pc (orch c) = M_fork_clients then 0
                             else if m_pc (orch c) = M_fork_workers then nat (m_i (orch c))
                             else nat (NU a0))"
    and H: "m_pc (orch c) = M_fork_workers \<longrightarrow> 0 \<le> m_i (orch c) \<and> m_i (orch c) < NU a0"
    and K: "Closing \<in> snd ` set (file_out (mem c)) \<longrightarrow> past_barrier (m_pc (orch c))"
    unfolding barrier_inv_def by blast+
  have t: "taken (tr @ [(p, a)]) = taken tr" using nw by (simp add: taken_snoc)
  have p1: "posted (tr @ [(p, a)]) = posted tr + (if a = Sem_post S_leaving then 1 else 0)"
    by (simp add: posted_snoc)
  have s1: "(\<Sum>j<length (workers c). signals j (tr @ [(p, a)])) =
      (\<Sum>j<length (workers c). signals j tr) + (if a = Sem_post S_leaving then 1 else 0)"
    using po by (simp add: sum_signals_snoc)
  have l0: "0 \<le> leaving (mem c')"
    using l B0 posted_value_bounds(2) [OF B0] by auto
  have l1: "leaving (mem c') + int (taken tr) \<le> int (posted tr + (if a = Sem_post S_leaving then 1 else 0))"
    using l B posted_value_bounds(1) [OF B0] by auto
  show ?thesis
    unfolding barrier_inv_def o w t p1 s1
  proof (intro conjI)
    show "m_args (orch c) = a0" by (rule A)
    show "0 \<le> leaving (mem c')" by (rule l0)
    show "leaving (mem c') + int (taken tr) \<le> int (posted tr + (if a = Sem_post S_leaving then 1 else 0))"
      by (rule l1)
    show "posted tr + (if a = Sem_post S_leaving then 1 else 0) =
       (\<Sum>j<length (workers c). signals j tr) + (if a = Sem_post S_leaving then 1 else 0)"
      using C by simp
    show "taken tr = (if m_pc (orch c) = M_wait_leaving then nat (m_i (orch c))
                   else if past_barrier (m_pc (orch c)) then nat (NU a0) else 0)" by (rule D)
    show "m_pc (orch c) = M_wait_leaving \<longrightarrow> 0 \<le> m_i (orch c) \<and> m_i (orch c) < NU a0" by (rule E)
    show "length (workers c) = (if m_pc (orch c) = M_fork_clients then 0
                             else if m_pc (orch c) = M_fork_workers then nat (m_i (orch c))
                             else nat (NU a0))" by (rule G)
    show "m_pc (orch c) = M_fork_workers \<longrightarrow> 0 \<le> m_i (orch c) \<and> m_i (orch c) < NU a0" by (rule H)
    show "Closing \<in> snd ` set (file_out (mem c')) \<longrightarrow> past_barrier (m_pc (orch c))"
      using f K by blast
  qed
qed

lemma barrier_inv_client:
  assumes inv: "barrier_inv a0 tr c" and i: "i < length (clients c)"
    and s: "process_client (mem c) (clients c ! i) r = Inr (a, m', x')"
  shows "barrier_inv a0 (tr @ [(P_client i, a)]) (c\<lparr>mem := m', clients := (clients c)[i := x']\<rparr>)"
proof -
  note b = client_barrier_step [OF s]
  from b have f: "Closing \<in> snd ` set (file_out m') \<longrightarrow> Closing \<in> snd ` set (file_out (mem c))"
    by auto
  show ?thesis
    using b f by (intro barrier_inv_frame [OF inv]) simp_all
qed

lemma barrier_inv_worker:
  assumes inv: "barrier_inv a0 tr c" and i: "i < length (workers c)"
    and s: "process_worker (mem c) (workers c ! i) r = Inr (a, m', x')"
  shows "barrier_inv a0 (tr @ [(P_worker i, a)]) (c\<lparr>mem := m', workers := (workers c)[i := x']\<rparr>)"
proof -
  note b = worker_barrier_step [OF s]
  from b have f: "Closing \<in> snd ` set (file_out m') \<longrightarrow> Closing \<in> snd ` set (file_out (mem c))"
    by auto
  show ?thesis
    using b f i by (intro barrier_inv_frame [OF inv]) simp_all
qed

lemma signals_main [simp]: "signals j (tr @ [(P_main, a)]) = signals j tr"
  by (simp add: signals_snoc)

lemma barrier_inv_main:
  assumes li: "leaving_inv_all tr c" and inv: "barrier_inv a0 tr c"
    and s: "main_at (m_pc (orch c)) c r = Inr (a, c')"
  shows "barrier_inv a0 (tr @ [(P_main, a)]) c'"
proof (cases "m_pc (orch c)")
  case M_fork_clients
  with s inv show ?thesis
    unfolding barrier_inv_def
    by (auto simp: posted_snoc taken_snoc fork_clients_next_def fork_workers_next_def split: if_splits)
next
  case M_fork_workers
  have z: "signals (length (workers c)) tr = 0"
    using li unfolding leaving_inv_all_def by simp
  from M_fork_workers s inv z show ?thesis
    unfolding barrier_inv_def
    by (auto simp: posted_snoc taken_snoc fork_workers_next_def nat_add_distrib split: if_splits)
next
  case M_sleep
  with s inv show ?thesis
    unfolding barrier_inv_def by (auto simp: posted_snoc taken_snoc)
next
  case M_close
  with s inv show ?thesis
    unfolding barrier_inv_def
    by (auto simp: posted_snoc taken_snoc wait_leaving_next_def split: if_splits)
next
  case M_wait_leaving
  with s inv show ?thesis
    unfolding barrier_inv_def
    by (auto simp: posted_snoc taken_snoc wait_leaving_next_def sem_wait_def sem_get_def nat_add_distrib
        split: if_splits)
next
  case (M_log ph)
  from s M_log obtain m' t' nxt where
    l: "log_step log_office ph (mem c) (m_tmp (orch c)) = Inr (a, m', t', nxt)"
    and c': "c' = c\<lparr>mem := m', orch := (case nxt of
                            Some ph' \<Rightarrow> (orch c)\<lparr>m_tmp := t', m_pc := M_log ph'\<rparr>
                          | None \<Rightarrow> dismiss_next ((orch c)\<lparr>m_tmp := t', m_i := 0\<rparr>))\<rparr>"
    by (auto split: sum.splits)
  note b = log_step_leaving [OF l]
  have pb: "past_barrier (m_pc (orch c'))" "m_pc (orch c') \<noteq> M_wait_leaving"
    "m_pc (orch c') \<noteq> M_fork_clients" "m_pc (orch c') \<noteq> M_fork_workers"
    "m_args (orch c') = m_args (orch c)"
    using c' by (auto simp: dismiss_next_def split: option.splits)
  have e: "mem c' = m'" "workers c' = workers c" using c' by simp_all
  show ?thesis
    using inv M_log b pb e unfolding barrier_inv_def
    by (auto simp: posted_snoc taken_snoc)
next
  case M_dismiss
  with s inv show ?thesis
    unfolding barrier_inv_def
    by (auto simp: posted_snoc taken_snoc dismiss_next_def sem_post_def split: if_splits)
next
  case M_wait_children
  with s inv show ?thesis
    unfolding barrier_inv_def by (auto simp: posted_snoc taken_snoc split: if_splits)
next
  case M_destroy
  with s inv show ?thesis
    unfolding barrier_inv_def by (auto simp: posted_snoc taken_snoc)
next
  case M_return
  with s inv show ?thesis
    unfolding barrier_inv_def by (auto simp: posted_snoc taken_snoc)
next
  case M_done
  with s show ?thesis by simp
qed

lemma barrier_inv_initial: "barrier_inv a [] (initial a)"
  by (simp add: barrier_inv_def initial_def fork_clients_next_def fork_workers_next_def
      posted_def taken_def shared_initial_def zeroed_def)

lemma barrier_inv_step:
  assumes li: "leaving_inv_all tr c" and inv: "barrier_inv a0 tr c" and st: "step c p r = Inr (a, c')"
  shows "barrier_inv a0 (tr @ [(p, a)]) c'"
proof (cases p)
  case P_main
  with st have m: "main_at (m_pc (orch c)) c r = Inr (a, c')" by simp
  show ?thesis using barrier_inv_main [OF li inv m] P_main by simp
next
  case (P_client i)
  with st obtain m' x' where i: "i < length (clients c)"
    and s: "process_client (mem c) (clients c ! i) r = Inr (a, m', x')"
    and c': "c' = c\<lparr>mem := m', clients := (clients c)[i := x']\<rparr>"
    by (auto split: if_splits sum.splits)
  show ?thesis using barrier_inv_client [OF inv i s] P_client c' by simp
next
  case (P_worker i)
  with st obtain m' x' where i: "i < length (workers c)"
    and s: "process_worker (mem c) (workers c ! i) r = Inr (a, m', x')"
    and c': "c' = c\<lparr>mem := m', workers := (workers c)[i := x']\<rparr>"
    by (auto split: if_splits sum.splits)
  show ?thesis using barrier_inv_worker [OF inv i s] P_worker c' by simp
qed

lemma barrier_inv_run:
  assumes "run (initial a) sched = Inr (tr, c)"
  shows "leaving_inv_all tr c \<and> barrier_inv a tr c"
proof -
  have st: "leaving_inv_all (tr @ [(p, b)]) c' \<and> barrier_inv a (tr @ [(p, b)]) c'"
    if "leaving_inv_all tr c \<and> barrier_inv a tr c" "step c p r = Inr (b, c')" for tr c p r b c'
    using that leaving_inv_all_step barrier_inv_step by blast
  have i: "leaving_inv_all [] (initial a) \<and> barrier_inv a [] (initial a)"
    using leaving_inv_all_initial barrier_inv_initial by simp
  from run_invariant [where I = "\<lambda>tr c. leaving_inv_all tr c \<and> barrier_inv a tr c", OF st i assms]
  show ?thesis by simp
qed

lemma sum_all_one:
  assumes le: "\<forall>j<n. f j \<le> (1::nat)" and ge: "n \<le> (\<Sum>j<(n::nat). f j)"
  shows "\<forall>j<n. f j = 1"
proof -
  have "(\<Sum>j<n. f j + (1 - f j)) = (\<Sum>j<n. 1)"
    using le by (intro sum.cong) auto
  then have "(\<Sum>j<n. f j) + (\<Sum>j<n. 1 - f j) = n"
    by (simp add: sum.distrib)
  with ge have "(\<Sum>j<n. 1 - f j) = 0" by arith
  then have "\<forall>j<n. 1 - f j = 0" by simp
  with le show ?thesis by (metis diff_is_0_eq le_antisym)
qed


text \<open>
  The barrier of lines 497-501: in every run, once the orchestrator is past its last
  \<^verbatim>\<open>sem_wait(&shared->leaving)\<close>, and so whenever the closing line is in the log, all
  \<open>NU\<close> workers exist, the orchestrator has taken \<open>NU\<close> posts, and every worker has
  posted \<^verbatim>\<open>leaving\<close> exactly once.
\<close>

theorem closing_after_all_signals:
  assumes r: "run (initial a) sched = Inr (tr, c)"
    and pb: "past_barrier (m_pc (orch c)) \<or> Closing \<in> snd ` set (file_out (mem c))"
  shows "length (workers c) = nat (NU a) \<and> taken tr = nat (NU a)
       \<and> (\<forall>j<length (workers c). signals j tr = 1)"
proof -
  from barrier_inv_run [OF r] have li: "leaving_inv_all tr c" and bi: "barrier_inv a tr c" by simp_all
  from bi have B0: "0 \<le> leaving (mem c)"
    and B: "leaving (mem c) + int (taken tr) \<le> int (posted tr)"
    and C: "posted tr = (\<Sum>j<length (workers c). signals j tr)"
    and D: "taken tr = (if m_pc (orch c) = M_wait_leaving then nat (m_i (orch c))
                   else if past_barrier (m_pc (orch c)) then nat (NU a) else 0)"
    and G: "length (workers c) = (if m_pc (orch c) = M_fork_clients then 0
                             else if m_pc (orch c) = M_fork_workers then nat (m_i (orch c))
                             else nat (NU a))"
    and K: "Closing \<in> snd ` set (file_out (mem c)) \<longrightarrow> past_barrier (m_pc (orch c))"
    unfolding barrier_inv_def by blast+
  from pb K have p: "past_barrier (m_pc (orch c))" by blast
  then have t: "taken tr = nat (NU a)" and n: "length (workers c) = nat (NU a)"
    using D G by auto
  have le: "\<forall>j<length (workers c). signals j tr \<le> 1"
    using li unfolding leaving_inv_all_def leaving_inv_def by auto
  have "taken tr \<le> posted tr"
    using B0 B by arith
  then have "length (workers c) \<le> (\<Sum>j<length (workers c). signals j tr)"
    using C t n by simp
  from sum_all_one [OF le this] show ?thesis using t n by simp
qed

lemma stranded_past_barrier:
  "(case run (initial args_2_1) sched_stranded of
      Inl f \<Rightarrow> False
    | Inr (tr, c) \<Rightarrow> past_barrier (m_pc (orch c)) \<and> length (workers c) = 1)"
  by code_simp

theorem closing_after_all_signals_witness:
  "\<exists>tr c. run (initial args_2_1) sched_stranded = Inr (tr, c)
     \<and> past_barrier (m_pc (orch c)) \<and> length (workers c) = 1
     \<and> taken tr = nat (NU args_2_1) \<and> signals 0 tr = 1"
proof -
  from Inr_caseD [OF stranded_past_barrier] obtain tr c where
    r: "run (initial args_2_1) sched_stranded = Inr (tr, c)"
    and w: "past_barrier (m_pc (orch c))" "length (workers c) = 1"
    by blast
  have pb: "past_barrier (m_pc (orch c)) \<or> Closing \<in> snd ` set (file_out (mem c))"
    using w by simp
  note t = closing_after_all_signals [OF r pb]
  from t have a: "taken tr = nat (NU args_2_1)" by simp
  from t w have b: "signals 0 tr = 1" by simp
  show ?thesis
    by (intro exI conjI) (rule r w a b)+
qed





subsection \<open>The scan of the queues\<close>



lemma ends_with_last:
  "ends_with (xs @ [x]) [x]"
  by (simp add: ends_with_def)

lemma sem_queue [simp]:
  "queue (sem_put s v m) = queue m"
  by (cases s) (simp_all add: sem_put_def)















subsection \<open>Two workers and one client\<close>

text \<open>
  C5: the numbers of the lines in the log should run from 1 without a gap or a repeat,
  and the three log functions take the semaphore \<^verbatim>\<open>output\<close> for that. In the run
  \<open>sched_unlocked\<close> of \<^verbatim>\<open>./proj2 1 2 0 0 0\<close> both workers take their snapshot while the
  one client waits. The first serves it and, inside \<^verbatim>\<open>log_worker\<close> with \<^verbatim>\<open>output\<close> at
  0, has set \<^verbatim>\<open>lines_count\<close> to 5 when the second, which found all three counters zero,
  decrements \<^verbatim>\<open>queue[3]\<close>: the value word of \<^verbatim>\<open>output\<close> goes from 0 to 2^32 - 1. The
  \<^verbatim>\<open>sem_wait\<close> of the second worker returns at once, it prints line 6, and the first
  prints line 5 after it; both are between their \<^verbatim>\<open>sem_wait\<close> and their \<^verbatim>\<open>sem_post\<close>.
\<close>

theorem log_numbers_out_of_order:
  "log_of (run (initial args_1_2) sched_unlocked) =
     [(1, Z_started 1), (2, Z_entering 1 1), (3, U_started 1), (4, U_started 2),
      (6, U_serving 2 4), (5, U_serving 1 1)]
   \<and> map (\<lambda>c. (output_sem (mem c), lines_count (mem c), map w_pc (workers c)))
       (drop 55 (states (initial args_1_2) sched_unlocked)) =
     [(0, 5, [W_log WA_SERVING_START L_print, W_dec]),
      (4294967295, 5, [W_log WA_SERVING_START L_print, W_unlock_dec]),
      (4294967295, 5, [W_log WA_SERVING_START L_print, W_call]),
      (4294967295, 5, [W_log WA_SERVING_START L_print, W_log WA_SERVING_START L_wait]),
      (4294967294, 5, [W_log WA_SERVING_START L_print, W_log WA_SERVING_START L_load]),
      (4294967294, 5, [W_log WA_SERVING_START L_print, W_log WA_SERVING_START L_store]),
      (4294967294, 6, [W_log WA_SERVING_START L_print, W_log WA_SERVING_START L_print]),
      (4294967294, 6, [W_log WA_SERVING_START L_print, W_log WA_SERVING_START L_post]),
      (4294967294, 6, [W_log WA_SERVING_START L_post, W_log WA_SERVING_START L_post])]"
  by code_simp

text \<open>
  C6: the serving branch should decrement the counter of the queue it chose, the picked
  one or else the first that is not empty, and post the semaphore of that queue. In the
  same run the second worker picks queue 1, reads zero there and at the three indices of
  the loop, and is left with \<^verbatim>\<open>queue = 4\<close>: the three counters and the three
  semaphores of the queues stay as they are, \<^verbatim>\<open>post_closed\<close> is posted, and the log
  has a service of type 4.
\<close>

theorem service_without_client:
  "trace_of (P_worker 1) (run (initial args_1_2) sched_unlocked) =
     [Sem_wait S_output, Read_lines 3, Write_lines 4, Write_line 4 (U_started 2), Sem_post S_output,
      Sem_wait S_mutex, Read_queues True, Read_open True, Sem_post S_mutex,
      Random 1, Read_queue 0 0, Read_queue 0 0, Read_queue 1 0, Read_queue 2 0,
      Sem_wait S_mutex, Dec_queue 3, Sem_post S_mutex, Sem_post S_post_closed,
      Sem_wait S_output, Read_lines 5, Write_lines 6, Write_line 6 (U_serving 2 4)]
   \<and> map_option (\<lambda>c. (queue (mem c), queue_sem (mem c), post_closed (mem c)))
        (final (run (initial args_1_2) sched_race)) = Some ([0, 0, 0], [1, 0, 0], 0)
   \<and> map_option (\<lambda>c. (queue (mem c), queue_sem (mem c), post_closed (mem c)))
        (final (run (initial args_1_2) sched_unlocked)) = Some ([0, 0, 0], [1, 0, 0], 1)"
  by code_simp

subsection \<open>The arguments that main rejects\<close>

text \<open>
  \<^verbatim>\<open>main\<close> exits with failure, holding nothing, exactly when the count of the arguments
  is wrong, \<^verbatim>\<open>strtol\<close> leaves characters of one of them unread, or one of the values is
  outside its range.
\<close>

lemma parse_int_arg_cases:
  "parse_int_arg arg = (if snd (strtol arg) \<noteq> [] then Inl (error ''Invalid argument'') else Inr (arg_value arg))"
  by (simp add: parse_int_arg_def arg_value_def split: prod.splits)

theorem invalid_arguments_rejected:
  "((\<exists>e. main_args argv = Inl e) \<longleftrightarrow>
      (length argv \<noteq> 6 \<or> (\<exists>i\<in>{1, 2, 3, 4, 5}. snd (strtol (argv ! i)) \<noteq> [])
       \<or> \<not> (0 < arg_value (argv ! 1) \<and> 0 < arg_value (argv ! 2)
             \<and> check_range (arg_value (argv ! 3)) 0 10000 \<and> check_range (arg_value (argv ! 4)) 0 100
             \<and> check_range (arg_value (argv ! 5)) 0 10000)))
   \<and> (main_args argv = Inl e \<longrightarrow> main_start argv env = Inl (e, []))"
  by (simp add: main_args_def main_start_def parse_int_arg_cases)

lemma trailing_rest: "snd (strtol (argv_trailing ! 3)) = ''x''"
  by code_simp

theorem invalid_arguments_rejected_witness:
  "snd (strtol (argv_trailing ! 3)) = ''x''
   \<and> main_args argv_trailing = Inl (Exit_failure ''Invalid argument'')
   \<and> main_start argv_trailing os_ok = Inl (Exit_failure ''Invalid argument'', [])"
proof -
  have e: "main_args argv_trailing = Inl (Exit_failure ''Invalid argument'')"
    by code_simp
  from invalid_arguments_rejected [of argv_trailing "Exit_failure ''Invalid argument''" os_ok] e
  have "main_start argv_trailing os_ok = Inl (Exit_failure ''Invalid argument'', [])"
    by blast
  with trailing_rest e show ?thesis by blast
qed

end
